theory Spec2Isabelle
  imports Main "HOL-Library.Sublist" "HOL-Library.While_Combinator"
begin

section \<open>Strings and numbers as the TypeScript code uses them\<close>

text \<open>
  A string is the list of its code units, and the model has the code units below 256 (the
  characters of Latin-1), which is the range of \<^typ>\<open>char\<close>.  On these, \<open>trim\<close> and \<open>trimEnd\<close>
  strip the white space of ECMAScript (tab, line feed, vertical tab, form feed, carriage
  return, space and the no-break space U+00A0), and \<open>toLowerCase\<close> maps \<open>A..Z\<close> and the
  upper-case letters U+00C0..U+00DE (all of that range but the multiplication sign U+00D7) to
  the letter 32 positions further.  \<open>includes\<close> is the contiguous-substring test, and a
  template literal \<open>`${k}`\<close> of an integer is its decimal representation.
\<close>

definition isSpaceChar :: "char \<Rightarrow> bool" where
  "isSpaceChar c = (c = CHR '' '' \<or> c = CHR 0x09 \<or> c = CHR 0x0A \<or> c = CHR 0x0B
                     \<or> c = CHR 0x0C \<or> c = CHR 0x0D)"

definition trimEnd :: "string \<Rightarrow> string" where
  "trimEnd s = rev (dropWhile isSpaceChar (rev s))"

definition trim :: "string \<Rightarrow> string" where
  "trim s = trimEnd (dropWhile isSpaceChar s)"

definition toLowerChar :: "char \<Rightarrow> char" where
  "toLowerChar c = (let k = (of_char c :: nat) in
                     if (65 \<le> k \<and> k \<le> 90)
                     then char_of (k + 32) else c)"

definition toLowerCase :: "string \<Rightarrow> string" where
  "toLowerCase s = map toLowerChar s"

fun strIncludes :: "string \<Rightarrow> string \<Rightarrow> bool" where
  "strIncludes [] q = (q = [])"
| "strIncludes (c # s) q = (prefix q (c # s) \<or> strIncludes s q)"

fun joinWith :: "string \<Rightarrow> string list \<Rightarrow> string" where
  "joinWith sep [] = []"
| "joinWith sep [x] = x"
| "joinWith sep (x # y # ys) = x @ sep @ joinWith sep (y # ys)"

text \<open>\<open>String(s).split("\n")\<close>: the empty string splits into one empty line.\<close>

fun splitLines :: "string \<Rightarrow> string list" where
  "splitLines [] = [[]]"
| "splitLines (c # cs) =
     (if c = CHR 0x0A then [] # splitLines cs
      else (case splitLines cs of [] \<Rightarrow> [[c]] | l # ls \<Rightarrow> (c # l) # ls))"

definition digitChar :: "nat \<Rightarrow> char" where
  "digitChar d = char_of (48 + d)"

function string_of_nat :: "nat \<Rightarrow> string" where
  "string_of_nat n = (if n < 10 then [digitChar n]
                      else string_of_nat (n div 10) @ [digitChar (n mod 10)])"
  by pat_completeness auto
termination
  by (relation "measure (\<lambda>n. n)") auto

declare string_of_nat.simps [simp del]

definition string_of_int :: "int \<Rightarrow> string" where
  "string_of_int i = (if i < 0 then CHR ''-'' # string_of_nat (nat (- i))
                      else string_of_nat (nat i))"

definition clamp :: "int \<Rightarrow> int \<Rightarrow> int \<Rightarrow> int" where
  "clamp n lo hi = max lo (min hi n)"

text \<open>Truthiness of an optional string: \<open>null\<close>, \<open>undefined\<close> and \<open>""\<close> are falsy.\<close>

definition truthyStr :: "string option \<Rightarrow> bool" where
  "truthyStr v = (case v of None \<Rightarrow> False | Some s \<Rightarrow> s \<noteq> [])"

section \<open>Data limits (utils/constants.ts)\<close>

definition LOG_MAX_LINES :: nat where "LOG_MAX_LINES = 5000"
definition NET_MAX_ITEMS :: nat where "NET_MAX_ITEMS = 1500"
definition PROPERTY_LIMIT :: nat where "PROPERTY_LIMIT = 80"
definition HEADER_LIMIT :: nat where "HEADER_LIMIT = 120"
definition BODY_LINE_LIMIT :: nat where "BODY_LINE_LIMIT = 300"

section \<open>Nodes (types/log.ts)\<close>

text \<open>
  \<open>RemoteObject\<close>: every field is optional.  The two fields of type \<open>unknown\<close>
  (\<open>value\<close>, \<open>preview\<close>) are kept as opaque text; only \<open>formatRemoteObject\<close>, which is a
  parameter of the model, reads them.
\<close>

record RemoteObject =
  rtype :: "string option"
  subtype :: "string option"
  className :: "string option"
  description :: "string option"
  unserializableValue :: "string option"
  rvalue :: "string option"
  objectId :: "string option"
  preview :: "string option"

datatype LogNodeKind = KText | KEntry | KArg | KProp | KMeta

datatype NetRole = RoleRequest | RoleHeaders | RoleResponse | RoleBody
datatype NetWhich = WhichRequest | WhichResponse

record NetNodeInfo =
  requestId :: string
  role :: NetRole
  which :: "NetWhich option"

text \<open>
  \<open>LogNode\<close>.  The non-recursive fields are a record, so that an object spread
  \<open>{...n, expanded: e}\<close> is a record update; the \<open>children\<close> array is the second
  argument of the constructor.  An absent \<open>children\<close> field is the empty list: every read
  of \<open>children\<close> in the sources tests \<open>children && children.length > 0\<close> (or iterates),
  so the two are not told apart.
\<close>

record NodeFields =
  nid :: string
  kind :: LogNodeKind
  timestamp :: "int option"
  label :: "string option"
  ntext :: "string option"
  args :: "RemoteObject list option"
  object :: "RemoteObject option"
  pname :: "string option"
  pvalue :: "RemoteObject option"
  expanded :: "bool option"
  loading :: "bool option"
  net :: "NetNodeInfo option"

datatype LogNode = LogNode (flds: NodeFields) (children: "LogNode list")

record FlatLogLine =
  nodeId :: string
  parentId :: "string option"
  indent :: nat
  ltext :: string
  expandable :: bool
  lexpanded :: bool

text \<open>An object literal that sets only \<open>id\<close> and \<open>kind\<close>; the callers add the rest.\<close>

definition mkFields :: "string \<Rightarrow> LogNodeKind \<Rightarrow> NodeFields" where
  "mkFields i k = \<lparr> nid = i, kind = k, timestamp = None, label = None, ntext = None,
                    args = None, object = None, pname = None, pvalue = None,
                    expanded = None, loading = None, net = None \<rparr>"

definition textNode :: "string \<Rightarrow> string \<Rightarrow> LogNode" where
  "textNode i t = LogNode ((mkFields i KText)\<lparr>ntext := Some t\<rparr>) []"

definition metaNode :: "string \<Rightarrow> string \<Rightarrow> LogNode" where
  "metaNode i t = LogNode ((mkFields i KMeta)\<lparr>ntext := Some t\<rparr>) []"

section \<open>Tree utilities (utils/tree.ts)\<close>

definition isObjectExpandable :: "RemoteObject option \<Rightarrow> bool" where
  "isObjectExpandable obj =
     (case obj of None \<Rightarrow> False
      | Some ob \<Rightarrow> (case objectId ob of None \<Rightarrow> False | Some i \<Rightarrow> length i > 0))"

definition lineExpandable :: "LogNode \<Rightarrow> bool" where
  "lineExpandable n =
     (let f = flds n in
      if kind f = KEntry then
        (case args f of None \<Rightarrow> False | Some a \<Rightarrow> length a > 0)
        \<or> length (children n) > 0 \<or> loading f = Some True
      else if kind f = KArg then isObjectExpandable (object f)
      else if kind f = KProp then isObjectExpandable (pvalue f)
      else False)"

definition lineText :: "(RemoteObject \<Rightarrow> string) \<Rightarrow> LogNode \<Rightarrow> string" where
  "lineText fmt n =
     (let f = flds n in
      if kind f = KText then (case ntext f of None \<Rightarrow> [] | Some t \<Rightarrow> t)
      else if kind f = KMeta then (case ntext f of None \<Rightarrow> [] | Some t \<Rightarrow> t)
      else if kind f = KEntry then
        (let lbl = (case label f of None \<Rightarrow> [] | Some l \<Rightarrow> l);
             as = (case args f of None \<Rightarrow> [] | Some a \<Rightarrow> a);
             pv = joinWith '' '' (map fmt as)
         in if pv \<noteq> [] then lbl @ '' '' @ pv else lbl)
      else if kind f = KArg then
        (case object f of None \<Rightarrow> [] | Some ob \<Rightarrow> fmt ob)
      else
        (let nm = (case pname f of None \<Rightarrow> ''?'' | Some x \<Rightarrow> x)
         in nm @ '': '' @ (case pvalue f of None \<Rightarrow> ''undefined'' | Some v \<Rightarrow> fmt v)))"

fun flattenLogTree ::
  "(RemoteObject \<Rightarrow> string) \<Rightarrow> LogNode list \<Rightarrow> string option \<Rightarrow> nat \<Rightarrow> FlatLogLine list" where
  "flattenLogTree fmt [] parent ind = []"
| "flattenLogTree fmt (LogNode f cs # ns) parent ind =
     \<lparr> nodeId = nid f, parentId = parent, indent = ind, ltext = lineText fmt (LogNode f cs),
       expandable = lineExpandable (LogNode f cs), lexpanded = (expanded f = Some True) \<rparr>
     # (if expanded f = Some True \<and> length cs > 0
        then flattenLogTree fmt cs (Some (nid f)) (ind + 1) else [])
     @ flattenLogTree fmt ns parent ind"

fun findNodeById :: "LogNode list \<Rightarrow> string \<Rightarrow> LogNode option" where
  "findNodeById [] i = None"
| "findNodeById (LogNode f cs # ns) i =
     (if nid f = i then Some (LogNode f cs)
      else (case findNodeById cs i of
              Some found \<Rightarrow> Some found
            | None \<Rightarrow> findNodeById ns i))"


text \<open>
  \<open>updateNodeById\<close>.  The updater callbacks of the stores mint node ids from a counter
  kept in a ref, so an updater is a function of the node and of that state, and the state is
  threaded through the traversal in the order of \<open>Array.map\<close>.  \<open>mapUpdate\<close> is the
  \<open>nodes.map\<close> loop: it returns the array \<open>next\<close> together with the flag \<open>changed\<close>.
  The test \<open>updatedChildren !== n.children\<close> compares references; the recursive call returns
  its argument itself exactly when its own flag is false, so the test is that flag.
\<close>

fun mapUpdate ::
  "LogNode list \<Rightarrow> string \<Rightarrow> (LogNode \<Rightarrow> 's \<Rightarrow> LogNode \<times> 's) \<Rightarrow> 's \<Rightarrow> LogNode list \<times> bool \<times> 's" where
  "mapUpdate [] i u st = ([], False, st)"
| "mapUpdate (LogNode f cs # ns) i u st =
     (if nid f = i then
        (case u (LogNode f cs) st of (n', st1) \<Rightarrow>
           (case mapUpdate ns i u st1 of (rest, chr, st2) \<Rightarrow> (n' # rest, True, st2)))
      else if length cs > 0 then
        (case mapUpdate cs i u st of (cs', chc, st1) \<Rightarrow>
           (case mapUpdate ns i u st1 of (rest, chr, st2) \<Rightarrow>
              if chc then (LogNode f cs' # rest, True, st2)
              else (LogNode f cs # rest, chr, st2)))
      else
        (case mapUpdate ns i u st of (rest, chr, st2) \<Rightarrow> (LogNode f cs # rest, chr, st2)))"

definition updateNodeById ::
  "LogNode list \<Rightarrow> string \<Rightarrow> (LogNode \<Rightarrow> 's \<Rightarrow> LogNode \<times> 's) \<Rightarrow> 's \<Rightarrow> LogNode list \<times> 's" where
  "updateNodeById nodes i u st =
     (case mapUpdate nodes i u st of (next, changed, st') \<Rightarrow>
        (if changed then next else nodes, st'))"

text \<open>An updater that touches no state, such as \<open>(n) => ({ ...n, expanded: false })\<close>.\<close>

definition pureUpd :: "(LogNode \<Rightarrow> LogNode) \<Rightarrow> LogNode \<Rightarrow> 's \<Rightarrow> LogNode \<times> 's" where
  "pureUpd g n st = (g n, st)"

text \<open>All node ids of a forest, in depth-first pre-order.\<close>

fun idsOf :: "LogNode list \<Rightarrow> string list" where
  "idsOf [] = []"
| "idsOf (LogNode f cs # ns) = nid f # idsOf cs @ idsOf ns"

section \<open>The log store (hooks/useLogTree.ts)\<close>

text \<open>
  The state of one \<open>useLogTree\<close> instance: the six \<open>useState\<close> cells and the two
  refs.  \<open>followDeps\<close> holds the dependency array with which the follow-tail effect last
  ran and \<open>searchDeps\<close> the one of the search effect (\<open>None\<close> before the first render),
  since React runs an effect again only when one of its dependencies has changed.
\<close>

record LogStore =
  logTree :: "LogNode list"
  followTail :: bool
  logScrollTop :: int
  selectedLogNodeId :: "string option"
  logSearchOpen :: bool
  logSearchQuery :: string
  nextNodeIdRef :: nat
  isExpandingRef :: bool
  followDeps :: "(nat \<times> bool \<times> int \<times> string option) option"
  searchDeps :: "string option"

definition initLogStore :: LogStore where
  "initLogStore = \<lparr> logTree = [], followTail = True, logScrollTop = 0,
      selectedLogNodeId = None, logSearchOpen = False, logSearchQuery = [],
      nextNodeIdRef = 0, isExpandingRef = False, followDeps = None, searchDeps = None \<rparr>"

definition nodeIdOfCounter :: "nat \<Rightarrow> string" where
  "nodeIdOfCounter k = ''n'' @ string_of_nat k"

definition logRootMatches :: "(RemoteObject \<Rightarrow> string) \<Rightarrow> string \<Rightarrow> LogNode \<Rightarrow> bool" where
  "logRootMatches fmt q n =
     (let f = flds n;
          hay = toLowerCase ((case label f of None \<Rightarrow> [] | Some l \<Rightarrow> l) @ '' ''
                             @ (case ntext f of None \<Rightarrow> [] | Some t \<Rightarrow> t))
      in case (if kind f = KEntry then args f else None) of
           Some a \<Rightarrow>
             if strIncludes (toLowerCase (joinWith '' '' (map fmt a))) q then True
             else strIncludes hay q
         | None \<Rightarrow> strIncludes hay q)"

definition filteredLogTree :: "(RemoteObject \<Rightarrow> string) \<Rightarrow> LogStore \<Rightarrow> LogNode list" where
  "filteredLogTree fmt s =
     (let q = toLowerCase (trim (logSearchQuery s))
      in if q = [] then logTree s else filter (logRootMatches fmt q) (logTree s))"

definition flatLogs :: "(RemoteObject \<Rightarrow> string) \<Rightarrow> LogStore \<Rightarrow> FlatLogLine list" where
  "flatLogs fmt s = flattenLogTree fmt (filteredLogTree fmt s) None 0"

text \<open>\<open>findIndex\<close>: the first position whose line has the id, if any.\<close>

fun findIndex :: "FlatLogLine list \<Rightarrow> string \<Rightarrow> nat option" where
  "findIndex [] i = None"
| "findIndex (l # ls) i = (if nodeId l = i then Some 0 else map_option Suc (findIndex ls i))"

definition selectedLogIndex :: "(RemoteObject \<Rightarrow> string) \<Rightarrow> LogStore \<Rightarrow> int" where
  "selectedLogIndex fmt s =
     (let flat = flatLogs fmt s in
      if flat = [] then - 1
      else (case selectedLogNodeId s of
              None \<Rightarrow> int (length flat) - 1
            | Some i \<Rightarrow>
                if i = [] then int (length flat) - 1
                else (case findIndex flat i of
                        Some k \<Rightarrow> int k | None \<Rightarrow> int (length flat) - 1)))"

text \<open>
  The body of the follow-tail effect (useLogTree.ts, lines 78--98).  The values it reads
  are those of the render, the setters are applied afterwards in call order.
\<close>

definition followEffect :: "(RemoteObject \<Rightarrow> string) \<Rightarrow> int \<Rightarrow> LogStore \<Rightarrow> LogStore" where
  "followEffect fmt visibleLogLines s =
     (let flat = flatLogs fmt s in
      if flat = [] then s\<lparr>selectedLogNodeId := None, logScrollTop := 0\<rparr>
      else
        let lastId = Some (nodeId (last flat));
            s1 = (if \<not> truthyStr (selectedLogNodeId s) then s\<lparr>selectedLogNodeId := lastId\<rparr> else s)
        in if followTail s
           then s1\<lparr>selectedLogNodeId := lastId,
                   logScrollTop := max 0 (int (length flat) - visibleLogLines)\<rparr>
           else s1\<lparr>logScrollTop :=
                     clamp (logScrollTop s1) 0 (max 0 (int (length flat) - visibleLogLines))\<rparr>)"

definition followDepsNow ::
  "(RemoteObject \<Rightarrow> string) \<Rightarrow> int \<Rightarrow> LogStore \<Rightarrow> nat \<times> bool \<times> int \<times> string option" where
  "followDepsNow fmt visibleLogLines s =
     (length (flatLogs fmt s), followTail s, visibleLogLines, selectedLogNodeId s)"

text \<open>
  The search effect (lines 100--102): a query that is not blank turns following off.  Its
  dependency array is the query.
\<close>

definition searchEffect :: "LogStore \<Rightarrow> LogStore \<Rightarrow> LogStore" where
  "searchEffect s pending = (if trim (logSearchQuery s) \<noteq> [] then pending\<lparr>followTail := False\<rparr> else pending)"

text \<open>
  One render of the state \<open>s\<close>: each of the two effects runs, in the order of the source, if
  its dependency array differs from the one of its last run.  Both read the values of the
  render; their setters write different cells, except that the functional update of the
  scroll position reads the cell nobody else has written.  \<open>recompute\<close> renders until no
  effect is due (a state change made by an effect causes the next render).
\<close>

definition followDue :: "(RemoteObject \<Rightarrow> string) \<Rightarrow> int \<Rightarrow> LogStore \<Rightarrow> bool" where
  "followDue fmt visibleLogLines s = (followDeps s \<noteq> Some (followDepsNow fmt visibleLogLines s))"

definition searchDue :: "LogStore \<Rightarrow> bool" where
  "searchDue s = (searchDeps s \<noteq> Some (logSearchQuery s))"

definition effectDue :: "(RemoteObject \<Rightarrow> string) \<Rightarrow> int \<Rightarrow> LogStore \<Rightarrow> bool" where
  "effectDue fmt visibleLogLines s = (followDue fmt visibleLogLines s \<or> searchDue s)"

definition renderOnce :: "(RemoteObject \<Rightarrow> string) \<Rightarrow> int \<Rightarrow> LogStore \<Rightarrow> LogStore" where
  "renderOnce fmt visibleLogLines s =
     (let s1 = (if followDue fmt visibleLogLines s then followEffect fmt visibleLogLines s else s);
          s2 = (if searchDue s then searchEffect s s1 else s1)
      in s2\<lparr>followDeps := Some (followDepsNow fmt visibleLogLines s),
             searchDeps := Some (logSearchQuery s)\<rparr>)"

definition recompute :: "(RemoteObject \<Rightarrow> string) \<Rightarrow> int \<Rightarrow> LogStore \<Rightarrow> LogStore option" where
  "recompute fmt visibleLogLines s =
     while_option (effectDue fmt visibleLogLines) (renderOnce fmt visibleLogLines) s"

text \<open>\<open>appendTextLog\<close> and \<open>appendEntryLog\<close> (lines 104--142).\<close>

text \<open>\<open>newLines.map\<close> with the local counter: the \<open>k\<close>-th line gets the id \<open>n(c+k)\<close>.\<close>

definition textNodesFrom :: "nat \<Rightarrow> string list \<Rightarrow> LogNode list" where
  "textNodesFrom c ts =
     map (\<lambda>(k, t). textNode (nodeIdOfCounter k) t) (zip [Suc c ..< Suc c + length ts] ts)"

definition appendTextLog :: "string \<Rightarrow> LogStore \<Rightarrow> LogStore" where
  "appendTextLog line s =
     (let newLines = splitLines line;
          c = nextNodeIdRef s;
          nodes = textNodesFrom c newLines;
          next = logTree s @ nodes
      in s\<lparr>nextNodeIdRef := c + length newLines,
            logTree := (if length next > LOG_MAX_LINES
                        then drop (length next - LOG_MAX_LINES) next else next)\<rparr>)"

definition entryNode :: "string \<Rightarrow> string \<Rightarrow> RemoteObject list \<Rightarrow> int option \<Rightarrow> LogNode" where
  "entryNode i lbl as ts =
     LogNode ((mkFields i KEntry)\<lparr>label := Some lbl, args := Some as, timestamp := ts,
                                   expanded := Some False\<rparr>) []"

definition appendEntryLog :: "string \<Rightarrow> RemoteObject list \<Rightarrow> int option \<Rightarrow> LogStore \<Rightarrow> LogStore" where
  "appendEntryLog lbl as ts s =
     (let c = Suc (nextNodeIdRef s);
          next = logTree s @ [entryNode (nodeIdOfCounter c) lbl as ts]
      in s\<lparr>nextNodeIdRef := c,
            logTree := (if length next > LOG_MAX_LINES
                        then drop (length next - LOG_MAX_LINES) next else next)\<rparr>)"

definition clearLogs :: "LogStore \<Rightarrow> LogStore" where
  "clearLogs s = s\<lparr>logTree := [], selectedLogNodeId := None, logScrollTop := 0, followTail := True\<rparr>"


section \<open>The network store (hooks/useNetTree.ts)\<close>

text \<open>
  \<open>NetRecord\<close> (types/network.ts is not among the sources; the fields are those the
  hooks read and write).  Every field but the request id is optional.  Numbers are integers.
  A header map is the list of its entries in \<open>Object.entries\<close> order.
\<close>

type_synonym headers = "(string \<times> string) list"

record NetRecord =
  recRequestId :: string
  startTimestamp :: "int option"
  endTimestamp :: "int option"
  httpMethod :: "string option"
  url :: "string option"
  requestHeaders :: "headers option"
  responseHeaders :: "headers option"
  postData :: "string option"
  initiator :: "string option"
  resourceType :: "string option"
  status :: "int option"
  statusText :: "string option"
  mimeType :: "string option"
  protocol :: "string option"
  remoteIPAddress :: "string option"
  remotePort :: "int option"
  fromDiskCache :: "bool option"
  fromServiceWorker :: "bool option"
  encodedDataLength :: "int option"
  errorText :: "string option"
  canceled :: "bool option"
  responseBody :: "(string \<times> bool) option"

text \<open>
  \<open>Partial<NetRecord>\<close>: a key is absent (\<open>None\<close>) or present; a present key may carry
  \<open>undefined\<close> (\<open>Some None\<close>), and the spread \<open>{ ...prev, ...patch }\<close> then overwrites
  the earlier value with \<open>undefined\<close>.
\<close>

record NetPatch =
  p_startTimestamp :: "int option option"
  p_endTimestamp :: "int option option"
  p_httpMethod :: "string option option"
  p_url :: "string option option"
  p_requestHeaders :: "headers option option"
  p_responseHeaders :: "headers option option"
  p_postData :: "string option option"
  p_initiator :: "string option option"
  p_resourceType :: "string option option"
  p_status :: "int option option"
  p_statusText :: "string option option"
  p_mimeType :: "string option option"
  p_protocol :: "string option option"
  p_remoteIPAddress :: "string option option"
  p_remotePort :: "int option option"
  p_fromDiskCache :: "bool option option"
  p_fromServiceWorker :: "bool option option"
  p_encodedDataLength :: "int option option"
  p_errorText :: "string option option"
  p_canceled :: "bool option option"
  p_responseBody :: "(string \<times> bool) option option"

definition emptyPatch :: NetPatch where
  "emptyPatch = \<lparr> p_startTimestamp = None, p_endTimestamp = None, p_httpMethod = None,
     p_url = None, p_requestHeaders = None, p_responseHeaders = None, p_postData = None,
     p_initiator = None, p_resourceType = None, p_status = None, p_statusText = None,
     p_mimeType = None, p_protocol = None, p_remoteIPAddress = None, p_remotePort = None,
     p_fromDiskCache = None, p_fromServiceWorker = None, p_encodedDataLength = None,
     p_errorText = None, p_canceled = None, p_responseBody = None \<rparr>"

definition newRecord :: "string \<Rightarrow> NetRecord" where
  "newRecord rid = \<lparr> recRequestId = rid, startTimestamp = None, endTimestamp = None,
     httpMethod = None, url = None, requestHeaders = None, responseHeaders = None,
     postData = None, initiator = None, resourceType = None, status = None,
     statusText = None, mimeType = None, protocol = None, remoteIPAddress = None,
     remotePort = None, fromDiskCache = None, fromServiceWorker = None,
     encodedDataLength = None, errorText = None, canceled = None, responseBody = None \<rparr>"

text \<open>One key of the spread: the patch wins where it has the key.\<close>

definition spreadKey :: "'a option \<Rightarrow> 'a option option \<Rightarrow> 'a option" where
  "spreadKey old new = (case new of None \<Rightarrow> old | Some v \<Rightarrow> v)"

definition mergeRecord :: "NetRecord \<Rightarrow> NetPatch \<Rightarrow> NetRecord" where
  "mergeRecord r p = \<lparr> recRequestId = recRequestId r,
     startTimestamp = spreadKey (startTimestamp r) (p_startTimestamp p),
     endTimestamp = spreadKey (endTimestamp r) (p_endTimestamp p),
     httpMethod = spreadKey (httpMethod r) (p_httpMethod p),
     url = spreadKey (url r) (p_url p),
     requestHeaders = spreadKey (requestHeaders r) (p_requestHeaders p),
     responseHeaders = spreadKey (responseHeaders r) (p_responseHeaders p),
     postData = spreadKey (postData r) (p_postData p),
     initiator = spreadKey (initiator r) (p_initiator p),
     resourceType = spreadKey (resourceType r) (p_resourceType p),
     status = spreadKey (status r) (p_status p),
     statusText = spreadKey (statusText r) (p_statusText p),
     mimeType = spreadKey (mimeType r) (p_mimeType p),
     protocol = spreadKey (protocol r) (p_protocol p),
     remoteIPAddress = spreadKey (remoteIPAddress r) (p_remoteIPAddress p),
     remotePort = spreadKey (remotePort r) (p_remotePort p),
     fromDiskCache = spreadKey (fromDiskCache r) (p_fromDiskCache p),
     fromServiceWorker = spreadKey (fromServiceWorker r) (p_fromServiceWorker p),
     encodedDataLength = spreadKey (encodedDataLength r) (p_encodedDataLength p),
     errorText = spreadKey (errorText r) (p_errorText p),
     canceled = spreadKey (canceled r) (p_canceled p),
     responseBody = spreadKey (responseBody r) (p_responseBody p) \<rparr>"

record NetStore =
  netTree :: "LogNode list"
  followNetTail :: bool
  netScrollTop :: int
  selectedNetNodeId :: "string option"
  netSearchOpen :: bool
  netSearchQuery :: string
  netByIdRef :: "string \<rightharpoonup> NetRecord"
  netIsExpandingRef :: bool
  netNextNodeIdRef :: nat

definition initNetStore :: NetStore where
  "initNetStore = \<lparr> netTree = [], followNetTail = True, netScrollTop = 0,
      selectedNetNodeId = None, netSearchOpen = False, netSearchQuery = [],
      netByIdRef = Map.empty, netIsExpandingRef = False, netNextNodeIdRef = 0 \<rparr>"

definition netIdOfCounter :: "nat \<Rightarrow> string" where
  "netIdOfCounter k = ''net_n'' @ string_of_nat k"

definition netRootMatches :: "string \<Rightarrow> LogNode \<Rightarrow> bool" where
  "netRootMatches q n =
     (let f = flds n;
          hay = toLowerCase ((case label f of None \<Rightarrow> [] | Some l \<Rightarrow> l) @ '' ''
                             @ (case ntext f of None \<Rightarrow> [] | Some t \<Rightarrow> t))
      in strIncludes hay q)"

definition filteredNetTree :: "NetStore \<Rightarrow> LogNode list" where
  "filteredNetTree s =
     (let q = toLowerCase (trim (netSearchQuery s))
      in if q = [] then netTree s else filter (netRootMatches q) (netTree s))"

definition flatNet :: "(RemoteObject \<Rightarrow> string) \<Rightarrow> NetStore \<Rightarrow> FlatLogLine list" where
  "flatNet fmt s = flattenLogTree fmt (filteredNetTree s) None 0"

definition upsertNet :: "string \<Rightarrow> NetPatch \<Rightarrow> NetStore \<Rightarrow> NetStore" where
  "upsertNet rid patch s =
     (let prev = (case netByIdRef s rid of Some r \<Rightarrow> r | None \<Rightarrow> newRecord rid)
      in s\<lparr>netByIdRef := (netByIdRef s)(rid \<mapsto> mergeRecord prev patch)\<rparr>)"

definition getNetRecord :: "string \<Rightarrow> NetStore \<Rightarrow> NetRecord option" where
  "getNetRecord rid s = netByIdRef s rid"

definition heavyX :: string where
  "heavyX = [CHR 0xE2, CHR 0x9C, CHR 0x96]"

definition ellipsis :: string where
  "ellipsis = [CHR 0xE2, CHR 0x80, CHR 0xA6]"

text \<open>
  \<open>getNetLabel\<close>.  \<open>formatTime\<close> (format.ts) is not among the sources and is a
  parameter; \<open>now\<close> is the reading of \<open>Date.now()\<close>.
\<close>

definition getNetLabel :: "(int \<Rightarrow> string) \<Rightarrow> int \<Rightarrow> string \<Rightarrow> NetStore \<Rightarrow> string" where
  "getNetLabel formatTime now rid s =
     (let r = netByIdRef s rid;
          time = formatTime (case Option.bind r startTimestamp of Some t \<Rightarrow> t | None \<Rightarrow> now);
          method = (case Option.bind r httpMethod of Some m \<Rightarrow> m | None \<Rightarrow> []);
          u = (case Option.bind r url of Some x \<Rightarrow> x | None \<Rightarrow> []);
          st = Option.bind r status;
          tail = (if truthyStr (Option.bind r errorText)
                  then '' '' @ heavyX @ '' '' @ (case Option.bind r errorText of Some e \<Rightarrow> e | None \<Rightarrow> [])
                  else (case st of Some n \<Rightarrow> '' '' @ string_of_int n | None \<Rightarrow> []))
      in trimEnd (''['' @ time @ ''] '' @ method @ '' '' @ u @ tail))"

definition clearNetwork :: "NetStore \<Rightarrow> NetStore" where
  "clearNetwork s = s\<lparr>netTree := [], netByIdRef := Map.empty, selectedNetNodeId := None,
                       netScrollTop := 0, followNetTail := True, netSearchQuery := []\<rparr>"


text \<open>
  \<open>buildHeadersChildren\<close> and \<open>buildNetChildren\<close> (lines 141--279).  Each call of
  \<open>newNodeId()\<close> increments the store's counter, so both take the counter and return it.
  \<open>sortEntries\<close> stands for \<open>entries.sort\<close> with \<open>localeCompare\<close>, which depends on the
  locale of the host.
\<close>

definition mintText :: "nat \<Rightarrow> string list \<Rightarrow> LogNode list" where
  "mintText c ts = map (\<lambda>(k, t). textNode (netIdOfCounter k) t) (zip [Suc c ..< Suc c + length ts] ts)"

definition buildHeadersChildren ::
  "(headers \<Rightarrow> headers) \<Rightarrow> headers option \<Rightarrow> nat \<Rightarrow> LogNode list \<times> nat" where
  "buildHeadersChildren sortEntries hs c =
     (let entries = sortEntries (case hs of None \<Rightarrow> [] | Some h \<Rightarrow> h);
          sliced = take HEADER_LIMIT entries;
          children1 = mintText c (map (\<lambda>(k, v). k @ '': '' @ v) sliced);
          c1 = c + length sliced;
          (children2, c2) =
            (if length entries > HEADER_LIMIT
             then (children1 @ [metaNode (netIdOfCounter (Suc c1))
                      (ellipsis @ '' ('' @ string_of_nat (length entries - HEADER_LIMIT)
                       @ '' more headers)'')], Suc c1)
             else (children1, c1))
      in if children2 = []
         then ([metaNode (netIdOfCounter (Suc c2)) ''(no headers)''], Suc c2)
         else (children2, c2))"

definition optText :: "bool \<Rightarrow> string \<Rightarrow> nat \<Rightarrow> LogNode list \<times> nat" where
  "optText cond t c = (if cond then ([textNode (netIdOfCounter (Suc c)) t], Suc c) else ([], c))"

definition netEntry :: "string \<Rightarrow> string \<Rightarrow> NetNodeInfo \<Rightarrow> LogNode list \<Rightarrow> LogNode" where
  "netEntry i lbl info cs =
     LogNode ((mkFields i KEntry)\<lparr>label := Some lbl, expanded := Some False, net := Some info\<rparr>) cs"

definition buildNetChildren ::
  "(headers \<Rightarrow> headers) \<Rightarrow> string \<Rightarrow> NetStore \<Rightarrow> nat \<Rightarrow> LogNode list \<times> nat" where
  "buildNetChildren sortEntries rid s c0 =
     (let r = netByIdRef s rid;
          (m1, c1) = optText (truthyStr (Option.bind r resourceType))
                       (''type: '' @ (case Option.bind r resourceType of Some t \<Rightarrow> t | None \<Rightarrow> [])) c0;
          (m2, c2) = optText (truthyStr (Option.bind r initiator))
                       (''initiator: '' @ (case Option.bind r initiator of Some t \<Rightarrow> t | None \<Rightarrow> [])) c1;
          (m3, c3) = optText (Option.bind r encodedDataLength \<noteq> None)
                       (''bytes: '' @ (case Option.bind r encodedDataLength of Some n \<Rightarrow> string_of_int n | None \<Rightarrow> [])) c2;
          meta = m1 @ m2 @ m3;
          reqH = Option.bind r requestHeaders;
          (reqHc, c4) = buildHeadersChildren sortEntries reqH c3;
          reqHeadersNode = netEntry (''net:'' @ rid @ '':reqHeaders'')
              (''Request Headers ('' @ string_of_nat (length (case reqH of None \<Rightarrow> [] | Some h \<Rightarrow> h)) @ '')'')
              \<lparr>requestId = rid, role = RoleHeaders, which = Some WhichRequest\<rparr> reqHc;
          resLineParts =
              (case Option.bind r status of Some n \<Rightarrow> [string_of_int n] | None \<Rightarrow> [])
            @ (case Option.bind r statusText of Some t \<Rightarrow> (if t \<noteq> [] then [t] else []) | None \<Rightarrow> [])
            @ (case Option.bind r mimeType of Some t \<Rightarrow> (if t \<noteq> [] then [t] else []) | None \<Rightarrow> []);
          (r1, c5) = optText (truthyStr (Option.bind r protocol))
                       (''protocol: '' @ (case Option.bind r protocol of Some t \<Rightarrow> t | None \<Rightarrow> [])) c4;
          (r2, c6) = optText (truthyStr (Option.bind r remoteIPAddress))
                       (''remote: '' @ (case Option.bind r remoteIPAddress of Some t \<Rightarrow> t | None \<Rightarrow> [])
                        @ (case Option.bind r remotePort of Some pt \<Rightarrow> '':'' @ string_of_int pt | None \<Rightarrow> [])) c5;
          (r3, c7) = optText (Option.bind r fromDiskCache = Some True) ''fromDiskCache: true'' c6;
          (r4, c8) = optText (Option.bind r fromServiceWorker = Some True) ''fromServiceWorker: true'' c7;
          resMeta = r1 @ r2 @ r3 @ r4;
          resH = Option.bind r responseHeaders;
          (resHc, c9) = buildHeadersChildren sortEntries resH c8;
          resHeadersNode = netEntry (''net:'' @ rid @ '':resHeaders'')
              (''Response Headers ('' @ string_of_nat (length (case resH of None \<Rightarrow> [] | Some h \<Rightarrow> h)) @ '')'')
              \<lparr>requestId = rid, role = RoleHeaders, which = Some WhichResponse\<rparr> resHc;
          bodyNode = netEntry (''net:'' @ rid @ '':body'') ''Response Body''
              \<lparr>requestId = rid, role = RoleBody, which = None\<rparr>
              [metaNode (netIdOfCounter (Suc c9)) ''(press z to load)''];
          c10 = Suc c9;
          responseNode = netEntry (''net:'' @ rid @ '':response'')
              (''Response'' @ (if resLineParts \<noteq> [] then '': '' @ joinWith '' '' resLineParts else []))
              \<lparr>requestId = rid, role = RoleResponse, which = None\<rparr>
              ([resHeadersNode] @ resMeta @ [bodyNode]);
          reqBodyNode = netEntry (''net:'' @ rid @ '':reqBody'') ''Request Body''
              \<lparr>requestId = rid, role = RoleBody, which = Some WhichRequest\<rparr>
              [metaNode (netIdOfCounter (Suc c10)) ''(press z to view)''];
          c11 = Suc c10;
          reqMeta = (if truthyStr (Option.bind r postData) then [reqBodyNode] else [])
      in (meta @ [reqHeadersNode] @ reqMeta @ [responseNode], c11))"

definition capNet :: "LogNode list \<Rightarrow> LogNode list" where
  "capNet next = (if length next > NET_MAX_ITEMS then drop (length next - NET_MAX_ITEMS) next else next)"

definition ensureNetRequestNode :: "(int \<Rightarrow> string) \<Rightarrow> int \<Rightarrow> string \<Rightarrow> NetStore \<Rightarrow> NetStore" where
  "ensureNetRequestNode formatTime now rid s =
     (let i = ''net:'' @ rid; prev = netTree s in
      if findNodeById prev i \<noteq> None
      then s\<lparr>netTree := fst (updateNodeById prev i
                 (pureUpd (\<lambda>n. LogNode ((flds n)\<lparr>label := Some (getNetLabel formatTime now rid s)\<rparr>)
                                        (children n))) ())\<rparr>
      else s\<lparr>netTree := capNet (prev @
                 [netEntry i (getNetLabel formatTime now rid s)
                    \<lparr>requestId = rid, role = RoleRequest, which = None\<rparr> []])\<rparr>)"

definition updateNetNodeLabel ::
  "(int \<Rightarrow> string) \<Rightarrow> int \<Rightarrow> (headers \<Rightarrow> headers) \<Rightarrow> string \<Rightarrow> NetStore \<Rightarrow> NetStore" where
  "updateNetNodeLabel formatTime now sortEntries rid s =
     (case updateNodeById (netTree s) (''net:'' @ rid)
             (\<lambda>n c. let (cs, c') = (if length (children n) > 0
                                     then buildNetChildren sortEntries rid s c
                                     else (children n, c))
                     in (LogNode ((flds n)\<lparr>label := Some (getNetLabel formatTime now rid s)\<rparr>) cs, c'))
             (netNextNodeIdRef s) of
        (t, c) \<Rightarrow> s\<lparr>netTree := t, netNextNodeIdRef := c\<rparr>)"

text \<open>
  \<open>formatResponseBody\<close> (utils/tree.ts).  \<open>tryPrettifyJson\<close> parses and prints JSON and
  is a parameter: it returns the text to show and whether the body was JSON.
\<close>

definition formatResponseBody ::
  "(string \<Rightarrow> string \<times> bool) \<Rightarrow> string \<Rightarrow> bool \<Rightarrow> string list \<times> string" where
  "formatResponseBody tryPrettifyJson body base64Encoded =
     (if base64Encoded
      then ([if length body > 100 then take 100 body @ ''...'' else body], ''(base64 encoded)'')
      else (case tryPrettifyJson body of (formatted, isJson) \<Rightarrow>
              (splitLines formatted, if isJson then ''(json, formatted)'' else ''(text)'')))"

text \<open>The children built from a body: a type hint, the first lines, a truncation marker.\<close>

definition bodyChildren :: "string list \<times> string \<Rightarrow> nat \<Rightarrow> LogNode list \<times> nat" where
  "bodyChildren fr c =
     (case fr of (lines, typeHint) \<Rightarrow>
        let sliced = take BODY_LINE_LIMIT lines;
            cs = metaNode (netIdOfCounter (Suc c)) typeHint # mintText (Suc c) sliced;
            c1 = Suc c + length sliced
        in if length lines > BODY_LINE_LIMIT
           then (cs @ [metaNode (netIdOfCounter (Suc c1))
                         (ellipsis @ '' ('' @ string_of_nat (length lines - BODY_LINE_LIMIT)
                          @ '' more lines)'')], Suc c1)
           else (cs, c1))"


section \<open>Lazy expansion in the log store (useLogTree.ts, lines 151--320)\<close>

definition ensureEntryChildren :: "LogNode \<Rightarrow> LogNode" where
  "ensureEntryChildren node =
     (if kind (flds node) \<noteq> KEntry then node
      else if length (children node) > 0 then node
      else
        let as = (case args (flds node) of Some a \<Rightarrow> a | None \<Rightarrow> []);
            cs = map (\<lambda>(i, obj).
                        LogNode ((mkFields (nid (flds node) @ '':arg:'' @ string_of_nat i) KArg)
                                   \<lparr>object := Some obj, expanded := Some False\<rparr>) [])
                     (zip [0 ..< length as] as)
        in LogNode (flds node) cs)"

definition setLogTreeUpdate ::
  "string \<Rightarrow> (LogNode \<Rightarrow> nat \<Rightarrow> LogNode \<times> nat) \<Rightarrow> LogStore \<Rightarrow> LogStore" where
  "setLogTreeUpdate i u s =
     (case updateNodeById (logTree s) i u (nextNodeIdRef s) of
        (t, c) \<Rightarrow> s\<lparr>logTree := t, nextNodeIdRef := c\<rparr>)"

definition setExpanded :: "bool \<Rightarrow> LogNode \<Rightarrow> LogNode" where
  "setExpanded e n = LogNode ((flds n)\<lparr>expanded := Some e\<rparr>) (children n)"

definition entryToggleUpdater :: "bool \<Rightarrow> bool \<Rightarrow> LogNode \<Rightarrow> nat \<Rightarrow> LogNode \<times> nat" where
  "entryToggleUpdater nextExpanded autoExpandArg0 n c =
     (let ensured = ensureEntryChildren n in
      if \<not> autoExpandArg0 then (setExpanded nextExpanded ensured, c)
      else (case children ensured of
              [] \<Rightarrow> (LogNode ((flds ensured)\<lparr>expanded := Some nextExpanded\<rparr>) [], c)
            | first # rest \<Rightarrow>
                (LogNode ((flds ensured)\<lparr>expanded := Some nextExpanded\<rparr>)
                   (LogNode ((flds first)\<lparr>expanded := Some True, loading := Some True\<rparr>)
                      [metaNode (nodeIdOfCounter (Suc c)) ''(loading properties...)''] # rest),
                 Suc c)))"

definition loadingUpdater :: "LogNode \<Rightarrow> nat \<Rightarrow> LogNode \<times> nat" where
  "loadingUpdater n c =
     (LogNode ((flds n)\<lparr>loading := Some True\<rparr>)
        [metaNode (nodeIdOfCounter (Suc c)) ''(loading properties...)''], Suc c)"

definition nodeExpandable :: "LogNode \<Rightarrow> bool" where
  "nodeExpandable node =
     (let f = flds node in
      if kind f = KEntry then (case args f of Some a \<Rightarrow> length a > 0 | None \<Rightarrow> False)
      else if kind f = KArg then isObjectExpandable (object f)
      else if kind f = KProp then isObjectExpandable (pvalue f)
      else False)"

text \<open>
  \<open>toggleExpandSelected\<close> is asynchronous.  \<open>toggleExpandSelected_begin\<close> is the part that
  runs before the \<open>await\<close>: it returns the new state and, when a fetch is issued, the id of
  the node the result is for and the \<open>objectId\<close> passed to \<open>getProperties\<close>.
  \<open>toggleExpandSelected_settle\<close> is the part after the \<open>await\<close>: the \<open>try\<close> branch for a
  fulfilled promise, the \<open>catch\<close> branch for a rejected one (with \<open>String(err)\<close>), then
  \<open>finally\<close>.  The state read by the first part is the rendered one.
\<close>

datatype 'a fetched = Fulfilled 'a | Rejected string

definition toggleExpandSelected_begin ::
  "(RemoteObject \<Rightarrow> string) \<Rightarrow> LogStore \<Rightarrow> LogStore \<times> (string \<times> string) option" where
  "toggleExpandSelected_begin fmt s =
     (if isExpandingRef s then (s, None)
      else
        let flat = flatLogs fmt s in
        if flat = [] then (s, None)
        else
          let selId = (case selectedLogNodeId s of Some i \<Rightarrow> i | None \<Rightarrow> nodeId (last flat)) in
          if selId = [] then (s, None)
          else (case findNodeById (logTree s) selId of
                  None \<Rightarrow> (s, None)
                | Some node \<Rightarrow>
                    if \<not> nodeExpandable node then (s, None)
                    else
                      let nextExpanded = (expanded (flds node) \<noteq> Some True) in
                      if kind (flds node) = KEntry then
                        (let as = (case args (flds node) of Some a \<Rightarrow> a | None \<Rightarrow> []);
                             firstArg = (case as of [] \<Rightarrow> None | a # _ \<Rightarrow> Some a);
                             autoExpandArg0 = (nextExpanded \<and> length as = 1 \<and> isObjectExpandable firstArg);
                             s1 = setLogTreeUpdate selId (entryToggleUpdater nextExpanded autoExpandArg0) s
                         in case (if autoExpandArg0 then Option.bind firstArg objectId else None) of
                              Some oid \<Rightarrow> (s1\<lparr>isExpandingRef := True\<rparr>, Some (selId @ '':arg:0'', oid))
                            | None \<Rightarrow> (s1, None))
                      else
                        (let s1 = setLogTreeUpdate selId (pureUpd (setExpanded nextExpanded)) s;
                             obj = (if kind (flds node) = KArg then object (flds node) else pvalue (flds node))
                         in if \<not> nextExpanded then (s1, None)
                            else if \<not> isObjectExpandable obj then (s1, None)
                            else if length (children node) > 0 \<and> loading (flds node) \<noteq> Some True
                            then (s1, None)
                            else (case Option.bind obj objectId of
                                    None \<Rightarrow> (s1, None)
                                  | Some oid \<Rightarrow>
                                      (setLogTreeUpdate selId loadingUpdater (s1\<lparr>isExpandingRef := True\<rparr>),
                                       Some (selId, oid))))))"

definition toggleExpandSelected_settle ::
  "string \<Rightarrow> LogNode list fetched \<Rightarrow> LogStore \<Rightarrow> LogStore" where
  "toggleExpandSelected_settle target res s =
     (let s1 = (case res of
                  Fulfilled cs \<Rightarrow>
                    setLogTreeUpdate target
                      (pureUpd (\<lambda>n. LogNode ((flds n)\<lparr>loading := Some False\<rparr>) cs)) s
                | Rejected err \<Rightarrow>
                    setLogTreeUpdate target
                      (\<lambda>n c. (LogNode ((flds n)\<lparr>loading := Some False\<rparr>)
                                 [metaNode (nodeIdOfCounter (Suc c)) (''[props] ! '' @ err)], Suc c)) s)
      in s1\<lparr>isExpandingRef := False\<rparr>)"

text \<open>
  One key press handled to the end, with a fetch function that answers at once; the second
  component counts the calls of \<open>getProperties\<close>.
\<close>

definition toggleExpandSelected ::
  "(RemoteObject \<Rightarrow> string) \<Rightarrow> (string \<Rightarrow> LogNode list fetched) \<Rightarrow> LogStore \<Rightarrow> LogStore \<times> nat" where
  "toggleExpandSelected fmt getProperties s =
     (case toggleExpandSelected_begin fmt s of
        (s1, None) \<Rightarrow> (s1, 0)
      | (s1, Some (target, oid)) \<Rightarrow> (toggleExpandSelected_settle target (getProperties oid) s1, 1))"


section \<open>Lazy expansion in the network store (useNetTree.ts, lines 325--496)\<close>

definition setNetTreeUpdate ::
  "string \<Rightarrow> (LogNode \<Rightarrow> nat \<Rightarrow> LogNode \<times> nat) \<Rightarrow> NetStore \<Rightarrow> NetStore" where
  "setNetTreeUpdate i u s =
     (case updateNodeById (netTree s) i u (netNextNodeIdRef s) of
        (t, c) \<Rightarrow> s\<lparr>netTree := t, netNextNodeIdRef := c\<rparr>)"

text \<open>Children built from a body outside the updater, then stored with \<open>{ ...n, children }\<close>.\<close>

definition showBody :: "(string \<Rightarrow> string \<times> bool) \<Rightarrow> string \<Rightarrow> string \<times> bool \<Rightarrow> NetStore \<Rightarrow> NetStore" where
  "showBody tryPrettifyJson selId b s =
     (case bodyChildren (formatResponseBody tryPrettifyJson (fst b) (snd b)) (netNextNodeIdRef s) of
        (cs, c) \<Rightarrow>
          setNetTreeUpdate selId (pureUpd (\<lambda>n. LogNode (flds n) cs)) (s\<lparr>netNextNodeIdRef := c\<rparr>))"

definition netLoadingUpdater :: "LogNode \<Rightarrow> nat \<Rightarrow> LogNode \<times> nat" where
  "netLoadingUpdater n c =
     (LogNode ((flds n)\<lparr>loading := Some True\<rparr>)
        [metaNode (netIdOfCounter (Suc c)) ''(loading response body...)''], Suc c)"

definition toggleNetExpandSelected_begin ::
  "(RemoteObject \<Rightarrow> string) \<Rightarrow> (headers \<Rightarrow> headers) \<Rightarrow> (string \<Rightarrow> string \<times> bool) \<Rightarrow> NetStore
     \<Rightarrow> NetStore \<times> (string \<times> string) option" where
  "toggleNetExpandSelected_begin fmt sortEntries tryPrettifyJson s =
     (if netIsExpandingRef s then (s, None)
      else
        let flat = flatNet fmt s in
        if flat = [] then (s, None)
        else
          let selId = (case selectedNetNodeId s of Some i \<Rightarrow> i | None \<Rightarrow> nodeId (last flat)) in
          if selId = [] then (s, None)
          else (case findNodeById (netTree s) selId of
                  None \<Rightarrow> (s, None)
                | Some node \<Rightarrow>
                    let hasChildren = (length (children node) > 0);
                        expandable = (kind (flds node) = KEntry \<and> (hasChildren \<or> net (flds node) \<noteq> None))
                    in if \<not> expandable then (s, None)
                    else
                      let nextExpanded = (expanded (flds node) \<noteq> Some True);
                          flip = setNetTreeUpdate selId (pureUpd (setExpanded nextExpanded)) s
                      in case net (flds node) of
                           None \<Rightarrow> (flip, None)
                         | Some info \<Rightarrow>
                             let rid = requestId info in
                             if role info = RoleRequest then
                               (setNetTreeUpdate selId
                                  (\<lambda>n c. let (cs, c') = (if length (children n) > 0 then (children n, c)
                                                          else buildNetChildren sortEntries rid s c)
                                          in (LogNode ((flds n)\<lparr>expanded := Some nextExpanded\<rparr>) cs, c')) s,
                                None)
                             else if role info = RoleBody \<and> which info = Some WhichRequest then
                               (if \<not> nextExpanded then (flip, None)
                                else (case Option.bind (netByIdRef s rid) postData of
                                        None \<Rightarrow> (flip, None)
                                      | Some pd \<Rightarrow>
                                          if pd = [] then (flip, None)
                                          else (showBody tryPrettifyJson selId (pd, False) flip, None)))
                             else if role info = RoleBody then
                               (if \<not> nextExpanded then (flip, None)
                                else (case Option.bind (netByIdRef s rid) responseBody of
                                        Some rb \<Rightarrow> (showBody tryPrettifyJson selId rb flip, None)
                                      | None \<Rightarrow>
                                          (setNetTreeUpdate selId netLoadingUpdater
                                             (flip\<lparr>netIsExpandingRef := True\<rparr>),
                                           Some (selId, rid))))
                             else (flip, None)))"

definition toggleNetExpandSelected_settle ::
  "(string \<Rightarrow> string \<times> bool) \<Rightarrow> string \<Rightarrow> string \<Rightarrow> (string \<times> bool) fetched \<Rightarrow> NetStore \<Rightarrow> NetStore" where
  "toggleNetExpandSelected_settle tryPrettifyJson selId rid res s =
     (let s1 = (case res of
                  Fulfilled body \<Rightarrow>
                    (let s0 = upsertNet rid (emptyPatch\<lparr>p_responseBody := Some (Some body)\<rparr>) s in
                     case bodyChildren (formatResponseBody tryPrettifyJson (fst body) (snd body))
                            (netNextNodeIdRef s0) of
                       (cs, c) \<Rightarrow>
                         setNetTreeUpdate selId
                           (pureUpd (\<lambda>n. LogNode ((flds n)\<lparr>loading := Some False\<rparr>) cs))
                           (s0\<lparr>netNextNodeIdRef := c\<rparr>))
                | Rejected err \<Rightarrow>
                    setNetTreeUpdate selId
                      (\<lambda>n c. (LogNode ((flds n)\<lparr>loading := Some False\<rparr>)
                                 [metaNode (netIdOfCounter (Suc c)) (''[body] ! '' @ err)], Suc c)) s)
      in s1\<lparr>netIsExpandingRef := False\<rparr>)"

definition toggleNetExpandSelected ::
  "(RemoteObject \<Rightarrow> string) \<Rightarrow> (headers \<Rightarrow> headers) \<Rightarrow> (string \<Rightarrow> string \<times> bool)
     \<Rightarrow> (string \<Rightarrow> (string \<times> bool) fetched) \<Rightarrow> NetStore \<Rightarrow> NetStore \<times> nat" where
  "toggleNetExpandSelected fmt sortEntries tryPrettifyJson getResponseBody s =
     (case toggleNetExpandSelected_begin fmt sortEntries tryPrettifyJson s of
        (s1, None) \<Rightarrow> (s1, 0)
      | (s1, Some (selId, rid)) \<Rightarrow>
          (toggleNetExpandSelected_settle tryPrettifyJson selId rid (getResponseBody rid) s1, 1))"

section \<open>Protocol events (hooks/useCdpClient.ts, lines 119--168; tui.tsx, lines 151--169)\<close>

text \<open>
  The payloads of the four network events, with the fields the handlers read; an absent
  field is \<open>None\<close>.  Each handler builds the patch and calls the callbacks of tui.tsx.
\<close>

record RequestWillBeSent =
  rq_requestId :: "string option"
  rq_timestamp :: "int option"
  rq_method :: "string option"
  rq_url :: "string option"
  rq_headers :: "headers option"
  rq_postData :: "string option"
  rq_initiatorUrl :: "string option"
  rq_type :: "string option"

record ResponseReceived =
  rs_requestId :: "string option"
  rs_status :: "int option"
  rs_statusText :: "string option"
  rs_mimeType :: "string option"
  rs_protocol :: "string option"
  rs_remoteIPAddress :: "string option"
  rs_remotePort :: "int option"
  rs_fromDiskCache :: "bool option"
  rs_fromServiceWorker :: "bool option"
  rs_headers :: "headers option"

record LoadingFinished =
  lf_requestId :: "string option"
  lf_timestamp :: "int option"
  lf_encodedDataLength :: "int option"

record LoadingFailed =
  lx_requestId :: "string option"
  lx_timestamp :: "int option"
  lx_errorText :: "string option"
  lx_canceled :: "bool option"

definition strOr :: "string option \<Rightarrow> string" where
  "strOr v = (case v of Some t \<Rightarrow> t | None \<Rightarrow> [])"

definition requestPatch :: "RequestWillBeSent \<Rightarrow> NetPatch" where
  "requestPatch p = emptyPatch\<lparr>
     p_startTimestamp := Some (rq_timestamp p),
     p_httpMethod := Some (Some (strOr (rq_method p))),
     p_url := Some (Some (strOr (rq_url p))),
     p_requestHeaders := Some (Some (case rq_headers p of Some h \<Rightarrow> h | None \<Rightarrow> [])),
     p_postData := Some (rq_postData p),
     p_initiator := Some (if truthyStr (rq_initiatorUrl p) then rq_initiatorUrl p else None),
     p_resourceType := Some (if truthyStr (rq_type p) then rq_type p else None)\<rparr>"

definition responsePatch :: "ResponseReceived \<Rightarrow> NetPatch" where
  "responsePatch p = emptyPatch\<lparr>
     p_status := Some (rs_status p),
     p_statusText := Some (rs_statusText p),
     p_mimeType := Some (rs_mimeType p),
     p_protocol := Some (rs_protocol p),
     p_remoteIPAddress := Some (rs_remoteIPAddress p),
     p_remotePort := Some (rs_remotePort p),
     p_fromDiskCache := Some (Some (rs_fromDiskCache p = Some True)),
     p_fromServiceWorker := Some (Some (rs_fromServiceWorker p = Some True)),
     p_responseHeaders := Some (Some (case rs_headers p of Some h \<Rightarrow> h | None \<Rightarrow> []))\<rparr>"

definition finishedPatch :: "LoadingFinished \<Rightarrow> NetPatch" where
  "finishedPatch p = emptyPatch\<lparr>
     p_endTimestamp := Some (lf_timestamp p),
     p_encodedDataLength := Some (lf_encodedDataLength p)\<rparr>"

definition failedPatch :: "LoadingFailed \<Rightarrow> NetPatch" where
  "failedPatch p = emptyPatch\<lparr>
     p_endTimestamp := Some (lx_timestamp p),
     p_errorText := Some (Some (case lx_errorText p of Some e \<Rightarrow> e | None \<Rightarrow> ''failed'')),
     p_canceled := Some (Some (lx_canceled p = Some True))\<rparr>"

definition onNetworkRequest :: "(int \<Rightarrow> string) \<Rightarrow> int \<Rightarrow> string \<Rightarrow> NetPatch \<Rightarrow> NetStore \<Rightarrow> NetStore" where
  "onNetworkRequest formatTime now rid patch s =
     ensureNetRequestNode formatTime now rid (upsertNet rid patch s)"

text \<open>\<open>onNetworkResponse\<close>, \<open>onNetworkFinished\<close> and \<open>onNetworkFailed\<close> have the same body.\<close>

definition onNetworkUpdate ::
  "(int \<Rightarrow> string) \<Rightarrow> int \<Rightarrow> (headers \<Rightarrow> headers) \<Rightarrow> string \<Rightarrow> NetPatch \<Rightarrow> NetStore \<Rightarrow> NetStore" where
  "onNetworkUpdate formatTime now sortEntries rid patch s =
     updateNetNodeLabel formatTime now sortEntries rid
       (ensureNetRequestNode formatTime now rid (upsertNet rid patch s))"

datatype NetEvent =
    EvRequestWillBeSent RequestWillBeSent
  | EvResponseReceived ResponseReceived
  | EvLoadingFinished LoadingFinished
  | EvLoadingFailed LoadingFailed

fun networkEvent ::
  "(int \<Rightarrow> string) \<Rightarrow> int \<Rightarrow> (headers \<Rightarrow> headers) \<Rightarrow> NetEvent \<Rightarrow> NetStore \<Rightarrow> NetStore" where
  "networkEvent formatTime now sortEntries (EvRequestWillBeSent p) s =
     (let rid = strOr (rq_requestId p) in
      if rid = [] then s else onNetworkRequest formatTime now rid (requestPatch p) s)"
| "networkEvent formatTime now sortEntries (EvResponseReceived p) s =
     (let rid = strOr (rs_requestId p) in
      if rid = [] then s else onNetworkUpdate formatTime now sortEntries rid (responsePatch p) s)"
| "networkEvent formatTime now sortEntries (EvLoadingFinished p) s =
     (let rid = strOr (lf_requestId p) in
      if rid = [] then s else onNetworkUpdate formatTime now sortEntries rid (finishedPatch p) s)"
| "networkEvent formatTime now sortEntries (EvLoadingFailed p) s =
     (let rid = strOr (lx_requestId p) in
      if rid = [] then s else onNetworkUpdate formatTime now sortEntries rid (failedPatch p) s)"


section \<open>Property fetch (hooks/useCdpClient.ts, lines 216--267)\<close>

text \<open>
  \<open>getProperties\<close> after the protocol call has answered with \<open>list\<close>.  The ids are made of
  a counter that starts at zero in every call and of \<open>Date.now()\<close>; \<open>clock k\<close> is the
  reading of the clock when the \<open>k\<close>-th id of the call is made.  \<open>sortItems\<close> stands for
  the sort by enumerability and \<open>localeCompare\<close>.
\<close>

record PropertyDescriptor =
  pd_name :: "string option"
  pd_value :: "RemoteObject option"
  pd_enumerable :: bool

definition propId :: "nat \<Rightarrow> int \<Rightarrow> string" where
  "propId k t = ''prop_'' @ string_of_nat k @ ''_'' @ string_of_int t"

definition getPropertiesChildren ::
  "((string \<times> RemoteObject \<times> bool) list \<Rightarrow> (string \<times> RemoteObject \<times> bool) list) \<Rightarrow> (nat \<Rightarrow> int)
     \<Rightarrow> PropertyDescriptor list \<Rightarrow> LogNode list" where
  "getPropertiesChildren sortItems clock list =
     (let items = sortItems (List.map_filter
                     (\<lambda>p. case (pd_name p, pd_value p) of
                            (Some n, Some v) \<Rightarrow> Some (n, v, pd_enumerable p)
                          | _ \<Rightarrow> None) list);
          sliced = take 80 items;
          cs = map (\<lambda>(k, (n, v, e)).
                      LogNode ((mkFields (propId k (clock k)) KProp)
                                 \<lparr>pname := Some n, pvalue := Some v, expanded := Some False\<rparr>) [])
                   (zip [1 ..< Suc (length sliced)] sliced)
      in if length items > 80
         then cs @ [metaNode (propId (Suc (length sliced)) (clock (Suc (length sliced))))
                      (ellipsis @ '' ('' @ string_of_nat (length items - 80) @ '' more properties)'')]
         else cs)"

definition getProperties ::
  "((string \<times> RemoteObject \<times> bool) list \<Rightarrow> (string \<times> RemoteObject \<times> bool) list) \<Rightarrow> (nat \<Rightarrow> int)
     \<Rightarrow> bool \<Rightarrow> PropertyDescriptor list fetched \<Rightarrow> LogNode list fetched" where
  "getProperties sortItems clock attached res =
     (if \<not> attached
      then Rejected ''Error: Runtime.getProperties is not available (not attached?)''
      else (case res of
              Rejected e \<Rightarrow> Rejected e
            | Fulfilled list \<Rightarrow> Fulfilled (getPropertiesChildren sortItems clock list)))"

section \<open>\<open>updateNodeById\<close> with object identity\<close>

text \<open>
  The same function with the allocations written out, for statements about references.
  Every object carries the address at which it was allocated: a node its own address and the
  address of its \<open>children\<close> array.  \<open>h\<close> is the next free address.  \<open>nodes.map\<close> allocates
  the array \<open>next\<close> before it calls the callback, and \<open>{ ...n, children }\<close> allocates a node;
  an updater may allocate as well.  A forest is the address of its array and the elements.
\<close>

datatype RefNode = RefNode (addr: nat) (rflds: NodeFields) (arrAddr: nat) (relems: "RefNode list")

fun mapUpdateRef ::
  "RefNode list \<Rightarrow> string \<Rightarrow> (RefNode \<Rightarrow> 's \<Rightarrow> nat \<Rightarrow> RefNode \<times> 's \<times> nat) \<Rightarrow> 's \<Rightarrow> nat
     \<Rightarrow> RefNode list \<times> bool \<times> 's \<times> nat" where
  "mapUpdateRef [] i u st h = ([], False, st, h)"
| "mapUpdateRef (RefNode a f ca cs # ns) i u st h =
     (if nid f = i then
        (case u (RefNode a f ca cs) st h of (n', st1, h1) \<Rightarrow>
           (case mapUpdateRef ns i u st1 h1 of (rest, chr, st2, h2) \<Rightarrow> (n' # rest, True, st2, h2)))
      else if length cs > 0 then
        (case mapUpdateRef cs i u st (Suc h) of (cs', chc, st1, h1) \<Rightarrow>
           if chc then
             (case mapUpdateRef ns i u st1 (Suc h1) of (rest, chr, st2, h2) \<Rightarrow>
                (RefNode h1 f h cs' # rest, True, st2, h2))
           else
             (case mapUpdateRef ns i u st1 h1 of (rest, chr, st2, h2) \<Rightarrow>
                (RefNode a f ca cs # rest, chr, st2, h2)))
      else
        (case mapUpdateRef ns i u st h of (rest, chr, st2, h2) \<Rightarrow>
           (RefNode a f ca cs # rest, chr, st2, h2)))"

definition updateNodeByIdRef ::
  "nat \<times> RefNode list \<Rightarrow> string \<Rightarrow> (RefNode \<Rightarrow> 's \<Rightarrow> nat \<Rightarrow> RefNode \<times> 's \<times> nat) \<Rightarrow> 's \<Rightarrow> nat
     \<Rightarrow> (nat \<times> RefNode list) \<times> 's \<times> nat" where
  "updateNodeByIdRef nodes i u st h =
     (case mapUpdateRef (snd nodes) i u st (Suc h) of
        (next, changed, st', h') \<Rightarrow> (if changed then (h, next) else nodes, st', h'))"

fun erase :: "RefNode \<Rightarrow> LogNode" where
  "erase (RefNode a f ca cs) = LogNode f (map erase cs)"

fun ridsOf :: "RefNode list \<Rightarrow> string list" where
  "ridsOf [] = []"
| "ridsOf (RefNode a f ca cs # ns) = nid f # ridsOf cs @ ridsOf ns"

text \<open>All addresses of a forest's elements: the nodes and their arrays.\<close>

fun refsOf :: "RefNode list \<Rightarrow> nat list" where
  "refsOf [] = []"
| "refsOf (RefNode a f ca cs # ns) = a # ca # refsOf cs @ refsOf ns"

text \<open>
  The property claimed of the result, in the words of the specification: where \<open>old\<close> is an
  array of the forest and \<open>new\<close> the array in its place, a node with the id is replaced by
  what the updater returns for it; a node above a node with the id is rebuilt, that is, it is
  a new object with the same fields whose \<open>children\<close> is a new array with the same property;
  every other node is the identical object.  \<open>h0\<close> is the first address that was free before
  the call, so an address is new when it is at least \<open>h0\<close>.
\<close>

fun pathLocal ::
  "(RefNode \<Rightarrow> 's \<Rightarrow> nat \<Rightarrow> RefNode \<times> 's \<times> nat) \<Rightarrow> nat \<Rightarrow> string \<Rightarrow> RefNode list \<Rightarrow> RefNode list \<Rightarrow> bool" where
  "pathLocal u h0 i [] [] = True"
| "pathLocal u h0 i (RefNode a f ca cs # old) (n # new) =
     ((if nid f = i then (\<exists>st h. h0 \<le> h \<and> n = fst (u (RefNode a f ca cs) st h))
       else if i \<in> set (ridsOf cs)
       then h0 \<le> addr n \<and> rflds n = f \<and> h0 \<le> arrAddr n \<and> pathLocal u h0 i cs (relems n)
       else n = RefNode a f ca cs)
      \<and> pathLocal u h0 i old new)"
| "pathLocal u h0 i [] (n # new) = False"
| "pathLocal u h0 i (n # old) [] = False"

section \<open>Notions used to state properties of forests\<close>

text \<open>
  \<open>replaceById\<close> replaces every node with the id that has no ancestor with the id by the
  image of the node.  \<open>shallowFrom\<close> lists the fields of all nodes of a forest in depth-first
  pre-order, each with its depth; it determines the forest.
\<close>

fun replaceById :: "LogNode list \<Rightarrow> string \<Rightarrow> (LogNode \<Rightarrow> LogNode) \<Rightarrow> LogNode list" where
  "replaceById [] i g = []"
| "replaceById (LogNode f cs # ns) i g =
     (if nid f = i then g (LogNode f cs) else LogNode f (replaceById cs i g)) # replaceById ns i g"



text \<open>The fields of a root that the search filters read.\<close>

definition rootKey :: "LogNode \<Rightarrow> LogNodeKind \<times> string option \<times> string option \<times> RemoteObject list option" where
  "rootKey n = (kind (flds n), label (flds n), ntext (flds n), args (flds n))"


section \<open>Repeated expansion gestures\<close>

text \<open>
  \<open>pressZ\<close> handles \<open>k\<close> presses of the expand key one after the other in the log store, each
  to the end (the fetch answered) before the next, and adds up the calls of \<open>getProperties\<close>;
  \<open>pressZNet\<close> does the same in the network store with the calls of \<open>getResponseBody\<close>.  The
  selection is not moved between the presses.
\<close>

fun pressZ :: "(RemoteObject \<Rightarrow> string) \<Rightarrow> (string \<Rightarrow> LogNode list fetched) \<Rightarrow> nat \<Rightarrow> LogStore \<times> nat \<Rightarrow> LogStore \<times> nat" where
  "pressZ fmt getProps 0 sk = sk"
| "pressZ fmt getProps (Suc k) sk =
     (case toggleExpandSelected fmt getProps (fst sk) of
        (s', j) \<Rightarrow> pressZ fmt getProps k (s', snd sk + j))"

fun pressZNet :: "(RemoteObject \<Rightarrow> string) \<Rightarrow> (headers \<Rightarrow> headers) \<Rightarrow> (string \<Rightarrow> string \<times> bool)
     \<Rightarrow> (string \<Rightarrow> (string \<times> bool) fetched) \<Rightarrow> nat \<Rightarrow> NetStore \<times> nat \<Rightarrow> NetStore \<times> nat" where
  "pressZNet fmt se pj gb 0 sk = sk"
| "pressZNet fmt se pj gb (Suc k) sk =
     (case toggleNetExpandSelected fmt se pj gb (fst sk) of
        (s', j) \<Rightarrow> pressZNet fmt se pj gb k (s', snd sk + j))"

text \<open>
  \<open>valueNodeAt\<close>: no expansion is in flight, the listing is not empty, and the selected id
  is that of the argument or property node \<open>n\<close> of the forest, whose object has an
  \<open>objectId\<close>.  \<open>valueOid\<close> is the \<open>objectId\<close> passed to the fetch.  \<open>bodyNodeAt\<close> is the same
  for a response-body node of the network store, and \<open>bodyRid\<close> its request id.
\<close>

definition valueOid :: "LogNode \<Rightarrow> string option" where
  "valueOid n = Option.bind (if kind (flds n) = KArg then object (flds n) else pvalue (flds n)) objectId"

definition valueNodeAt :: "(RemoteObject \<Rightarrow> string) \<Rightarrow> LogStore \<Rightarrow> string \<Rightarrow> LogNode \<Rightarrow> bool" where
  "valueNodeAt fmt s i n \<longleftrightarrow>
     \<not> isExpandingRef s \<and> flatLogs fmt s \<noteq> [] \<and> selectedLogNodeId s = Some i \<and> i \<noteq> []
     \<and> findNodeById (logTree s) i = Some n \<and> kind (flds n) \<noteq> KEntry \<and> nodeExpandable n"

definition bodyRid :: "LogNode \<Rightarrow> string option" where
  "bodyRid n = map_option requestId (net (flds n))"

definition bodyNodeAt :: "(RemoteObject \<Rightarrow> string) \<Rightarrow> NetStore \<Rightarrow> string \<Rightarrow> LogNode \<Rightarrow> bool" where
  "bodyNodeAt fmt s i n \<longleftrightarrow>
     \<not> netIsExpandingRef s \<and> flatNet fmt s \<noteq> [] \<and> selectedNetNodeId s = Some i \<and> i \<noteq> []
     \<and> findNodeById (netTree s) i = Some n \<and> kind (flds n) = KEntry
     \<and> (case net (flds n) of None \<Rightarrow> False
         | Some info \<Rightarrow> role info = RoleBody \<and> which info \<noteq> Some WhichRequest)"
section \<open>Example values\<close>

text \<open>A formatter of remote objects, and the forest of the root-only-filter example.\<close>

definition descFmt :: "RemoteObject \<Rightarrow> string" where
  "descFmt ob = (case description ob of Some d \<Rightarrow> d | None \<Rightarrow> [])"

definition alphaNeedle :: "bool \<Rightarrow> LogNode list" where
  "alphaNeedle e =
     [LogNode ((mkFields ''a'' KEntry)\<lparr>label := Some ''alpha'', expanded := Some e\<rparr>)
        [LogNode ((mkFields ''b'' KEntry)\<lparr>label := Some ''needle''\<rparr>) []]]"

text \<open>Event payloads with no field set, a time formatter, and a sort that keeps the order.\<close>

definition bareRequest :: RequestWillBeSent where
  "bareRequest = \<lparr> rq_requestId = None, rq_timestamp = None, rq_method = None, rq_url = None,
     rq_headers = None, rq_postData = None, rq_initiatorUrl = None, rq_type = None \<rparr>"

definition bareResponse :: ResponseReceived where
  "bareResponse = \<lparr> rs_requestId = None, rs_status = None, rs_statusText = None, rs_mimeType = None,
     rs_protocol = None, rs_remoteIPAddress = None, rs_remotePort = None, rs_fromDiskCache = None,
     rs_fromServiceWorker = None, rs_headers = None \<rparr>"

definition bareFinished :: LoadingFinished where
  "bareFinished = \<lparr> lf_requestId = None, lf_timestamp = None, lf_encodedDataLength = None \<rparr>"

definition noonFmt :: "int \<Rightarrow> string" where
  "noonFmt t = ''12:00''"

definition keepOrder :: "headers \<Rightarrow> headers" where
  "keepOrder h = h"

text \<open>A remote object with an identity, and a log store with two entries of one such argument each.\<close>

definition remoteObj :: "string \<Rightarrow> RemoteObject" where
  "remoteObj oid = \<lparr> rtype = Some ''object'', subtype = None, className = None,
     description = Some ''Object'', unserializableValue = None, rvalue = None,
     objectId = Some oid, preview = None \<rparr>"

definition twoEntries :: LogStore where
  "twoEntries = (appendEntryLog ''second'' [remoteObj ''o2''] None
                   (appendEntryLog ''first'' [remoteObj ''o1''] None initLogStore))
                \<lparr>selectedLogNodeId := Some ''n1''\<rparr>"

text \<open>A forest with addresses, and an updater that allocates the node it returns.\<close>

definition refForest :: "RefNode list" where
  "refForest =
     [RefNode 1 (mkFields ''a'' KEntry) 2
        [RefNode 3 (mkFields ''b'' KArg) 4 [], RefNode 5 (mkFields ''c'' KArg) 6 []],
      RefNode 7 (mkFields ''d'' KText) 8 []]"

definition expandRef :: "RefNode \<Rightarrow> unit \<Rightarrow> nat \<Rightarrow> RefNode \<times> unit \<times> nat" where
  "expandRef n st k = (RefNode k ((rflds n)\<lparr>expanded := Some True\<rparr>) (arrAddr n) (relems n), st, Suc k)"



text \<open>
  A log store whose first entry has two arguments and is expanded, with the first argument
  selected; a fetch for an object without properties; a network store with one request,
  expanded, with its response-body node selected; a JSON printer for text that is not JSON.
\<close>

definition argOfPair :: LogStore where
  "argOfPair = (fst (toggleExpandSelected descFmt (\<lambda>oid. Fulfilled [])
                  ((appendEntryLog ''pair'' [remoteObj ''o1'', remoteObj ''o2''] None initLogStore)
                     \<lparr>selectedLogNodeId := Some ''n1''\<rparr>)))
               \<lparr>selectedLogNodeId := Some ''n1:arg:0''\<rparr>"

definition noProperties :: "string \<Rightarrow> LogNode list fetched" where
  "noProperties oid = getProperties (\<lambda>items. items) (\<lambda>k. 0) True (Fulfilled [])"


definition plainJson :: "string \<Rightarrow> string \<times> bool" where
  "plainJson b = (b, False)"

definition oneRequest :: NetStore where
  "oneRequest =
     (fst (toggleNetExpandSelected descFmt keepOrder plainJson (\<lambda>rid. Rejected [])
        ((networkEvent noonFmt 0 keepOrder
            (EvRequestWillBeSent (bareRequest\<lparr>rq_requestId := Some ''r1'', rq_method := Some ''GET'',
                                              rq_url := Some ''http://a''\<rparr>)) initNetStore)
           \<lparr>selectedNetNodeId := Some ''net:r1''\<rparr>)))
     \<lparr>selectedNetNodeId := Some ''net:r1:body''\<rparr>"

text \<open>
  The log store after \<open>LOG_MAX_LINES\<close> single lines, and the same store once the effects have
  run with ten visible lines: the last line is selected.
\<close>

definition fullLog :: LogStore where
  "fullLog = fold appendTextLog (replicate LOG_MAX_LINES ''a'') initLogStore"

definition atCap :: LogStore where
  "atCap = fullLog\<lparr>selectedLogNodeId := Some ''n5000'', logScrollTop := 4990,
                    followDeps := Some (5000, True, 10, Some ''n5000''), searchDeps := Some []\<rparr>"
section \<open>Facts about \<open>findNodeById\<close> and \<open>updateNodeById\<close>\<close>

lemma find_None_iff: "findNodeById ns i = None \<longleftrightarrow> i \<notin> set (idsOf ns)"
  by (induction ns i rule: findNodeById.induct) (auto split: option.splits)

lemma replaceById_absent: "i \<notin> set (idsOf ns) \<Longrightarrow> replaceById ns i g = ns"
  by (induction ns i g rule: replaceById.induct) auto

lemma mapUpdate_absent:
  "i \<notin> set (idsOf ns) \<Longrightarrow> mapUpdate ns i u st = (ns, False, st)"
  by (induction ns i u st rule: mapUpdate.induct) auto

lemma mapUpdate_changed:
  "fst (snd (mapUpdate ns i u st)) \<longleftrightarrow> i \<in> set (idsOf ns)"
proof (induction ns i u st rule: mapUpdate.induct)
  case (1 i u st)
  show ?case by simp
next
  case (2 f cs ns i u st)
  show ?case
  proof (cases "nid f = i")
    case True
    then show ?thesis by (simp split: prod.splits)
  next
    case False
    note nf = False
    show ?thesis
    proof (cases "length cs > 0")
      case True
      obtain cs' chc st1 where c: "mapUpdate cs i u st = (cs', chc, st1)"
        by (cases "mapUpdate cs i u st") auto
      obtain rest chr st2 where r: "mapUpdate ns i u st1 = (rest, chr, st2)"
        by (cases "mapUpdate ns i u st1") auto
      have ihc: "chc \<longleftrightarrow> i \<in> set (idsOf cs)"
        using "2.IH"(2)[OF nf True] c by simp
      have ihr: "chr \<longleftrightarrow> i \<in> set (idsOf ns)"
        using "2.IH"(3)[OF nf True c[symmetric]] r by simp
      show ?thesis using nf True c r ihc ihr by auto
    next
      case False
      obtain rest chr st2 where r: "mapUpdate ns i u st = (rest, chr, st2)"
        by (cases "mapUpdate ns i u st") auto
      have ihr: "chr \<longleftrightarrow> i \<in> set (idsOf ns)"
        using "2.IH"(4)[OF nf False] r by simp
      show ?thesis using nf False r ihr by auto
    qed
  qed
qed


lemma updateNodeById_mapUpdate:
  "updateNodeById ns i u st = (fst (mapUpdate ns i u st), snd (snd (mapUpdate ns i u st)))"
proof (cases "i \<in> set (idsOf ns)")
  case True
  obtain nx ch st' where m: "mapUpdate ns i u st = (nx, ch, st')"
    by (cases "mapUpdate ns i u st") auto
  have "ch" using mapUpdate_changed[of ns i u st] m True by simp
  then show ?thesis using m by (simp add: updateNodeById_def)
next
  case False
  then show ?thesis by (simp add: updateNodeById_def mapUpdate_absent)
qed

lemma mapUpdate_pure:
  "mapUpdate ns i (pureUpd g) st = (replaceById ns i g, i \<in> set (idsOf ns), st)"
proof (induction ns i g rule: replaceById.induct)
  case (1 i g)
  show ?case by simp
next
  case (2 f cs ns i g)
  show ?case
  proof (cases "nid f = i")
    case True
    then show ?thesis using 2 by (simp add: pureUpd_def)
  next
    case False
    then show ?thesis using 2 by (cases cs) (auto simp: replaceById_absent)
  qed
qed

lemma updateNodeById_pure:
  "updateNodeById ns i (pureUpd g) st = (replaceById ns i g, st)"
  by (simp add: updateNodeById_mapUpdate mapUpdate_pure)


lemma find_mapUpdate_first:
  "findNodeById ns i = Some n \<Longrightarrow> nid (flds (fst (u n st))) = i \<Longrightarrow>
   findNodeById (fst (mapUpdate ns i u st)) i = Some (fst (u n st))"
proof (induction ns i arbitrary: st rule: findNodeById.induct)
  case (1 i)
  then show ?case by simp
next
  case (2 f cs ns i)
  show ?case
  proof (cases "nid f = i")
    case True
    then have n: "n = LogNode f cs" using "2.prems" by simp
    obtain n' st1 where un: "u (LogNode f cs) st = (n', st1)" by (cases "u (LogNode f cs) st") auto
    have "nid (flds n') = i" using "2.prems"(2) n un by simp
    then show ?thesis using True n un
      by (cases n') (simp split: prod.splits)
  next
    case False
    note nf = False
    show ?thesis
    proof (cases "findNodeById cs i")
      case (Some m)
      then have mn: "m = n" using nf "2.prems" by simp
      have inn: "i \<in> set (idsOf cs)" using Some find_None_iff[of cs i] by auto
      have cne: "length cs > 0" using Some by (cases cs) auto
      obtain cs' chc st1 where c: "mapUpdate cs i u st = (cs', chc, st1)"
        by (cases "mapUpdate cs i u st") auto
      have chc: "chc" using mapUpdate_changed[of cs i u st] c inn by simp
      have ih: "findNodeById cs' i = Some (fst (u n st))"
        using "2.IH"(1)[OF nf, of st] Some mn "2.prems"(2) c by simp
      show ?thesis using nf cne c chc ih by (simp split: prod.splits)
    next
      case None
      then have notin: "i \<notin> set (idsOf cs)" by (simp add: find_None_iff)
      have fns: "findNodeById ns i = Some n" using nf None "2.prems" by simp
      obtain rest chr st2 where r: "mapUpdate ns i u st = (rest, chr, st2)"
        by (cases "mapUpdate ns i u st") auto
      have ih: "findNodeById rest i = Some (fst (u n st))"
        using "2.IH"(2)[OF nf None fns "2.prems"(2)] r by simp
      show ?thesis using nf ih notin None r
        by (cases cs) (simp_all add: mapUpdate_absent)
    qed
  qed
qed

section \<open>Clearing a store\<close>

text \<open>
  C10.  \<open>clearLogs\<close> empties the log forest, resets the selection to none and the scroll
  offset to 0 and switches follow-tail on, and leaves the log search query as it is;
  \<open>clearNetwork\<close> does the same for the network store and also empties the record map and
  resets the network search query to the empty string.
\<close>

theorem clear_asymmetry:
  "logTree (clearLogs s) = [] \<and> selectedLogNodeId (clearLogs s) = None
   \<and> logScrollTop (clearLogs s) = 0 \<and> followTail (clearLogs s)
   \<and> logSearchQuery (clearLogs s) = logSearchQuery s
   \<and> netTree (clearNetwork t) = [] \<and> selectedNetNodeId (clearNetwork t) = None
   \<and> netScrollTop (clearNetwork t) = 0 \<and> followNetTail (clearNetwork t)
   \<and> netByIdRef (clearNetwork t) = Map.empty \<and> netSearchQuery (clearNetwork t) = []"
  by (simp add: clearLogs_def clearNetwork_def)

section \<open>Appending under a cap\<close>

lemma splitLines_single: "CHR 0x0A \<notin> set l \<Longrightarrow> splitLines l = [l]"
  by (induction l) auto

text \<open>Cutting to the last \<open>c\<close> elements, appending, and cutting again is one cut.\<close>

lemma capTail_capTail:
  "drop (length (drop (length xs - c) xs @ ys) - c) (drop (length xs - c) xs @ ys)
   = drop (length (xs @ ys) - c) (xs @ ys)"
  by (cases "length xs \<le> c") (auto simp: min_def ac_simps)

lemma length_capTail: "length (drop (length xs - c) xs) = min (length xs) c"
  by (simp add: min_def)

lemma appendTextLog_tree:
  "logTree (appendTextLog line s) =
     drop (length (logTree s @ textNodesFrom (nextNodeIdRef s) (splitLines line)) - LOG_MAX_LINES)
          (logTree s @ textNodesFrom (nextNodeIdRef s) (splitLines line))"
  by (simp add: appendTextLog_def Let_def)

lemma appendTextLog_counter:
  "nextNodeIdRef (appendTextLog line s) = nextNodeIdRef s + length (splitLines line)"
  by (simp add: appendTextLog_def Let_def)

lemma textNodesFrom_Cons:
  "textNodesFrom c (t # ts) = textNode (nodeIdOfCounter (Suc c)) t # textNodesFrom (Suc c) ts"
  by (simp add: textNodesFrom_def upt_conv_Cons del: upt_Suc)

lemma length_textNodesFrom: "length (textNodesFrom c ts) = length ts"
  by (simp add: textNodesFrom_def del: upt_Suc)

lemma text_textNodesFrom: "map (\<lambda>n. ntext (flds n)) (textNodesFrom c ts) = map Some ts"
proof (induction ts arbitrary: c)
  case Nil
  show ?case by (simp add: textNodesFrom_def)
next
  case (Cons t ts)
  then show ?case by (simp add: textNodesFrom_Cons textNode_def mkFields_def)
qed

lemma appendEntryLog_tree:
  "logTree (appendEntryLog lbl as ts s) =
     drop (length (logTree s @ [entryNode (nodeIdOfCounter (Suc (nextNodeIdRef s))) lbl as ts])
             - LOG_MAX_LINES)
          (logTree s @ [entryNode (nodeIdOfCounter (Suc (nextNodeIdRef s))) lbl as ts])"
  by (simp add: appendEntryLog_def Let_def)

lemma ensureNetRequestNode_new:
  "findNodeById (netTree t) (''net:'' @ rid) = None \<Longrightarrow>
   netTree (ensureNetRequestNode ft now rid t) =
     drop (length (netTree t @ [netEntry (''net:'' @ rid) (getNetLabel ft now rid t)
                       \<lparr>requestId = rid, role = RoleRequest, which = None\<rparr> []]) - NET_MAX_ITEMS)
          (netTree t @ [netEntry (''net:'' @ rid) (getNetLabel ft now rid t)
                       \<lparr>requestId = rid, role = RoleRequest, which = None\<rparr> []])"
  by (simp add: ensureNetRequestNode_def Let_def capNet_def)

lemma fold_appendTextLog:
  "\<forall>x\<in>set (l # ls). CHR 0x0A \<notin> set x \<Longrightarrow>
   logTree (fold appendTextLog (l # ls) s) =
     drop (length (logTree s @ textNodesFrom (nextNodeIdRef s) (l # ls)) - LOG_MAX_LINES)
          (logTree s @ textNodesFrom (nextNodeIdRef s) (l # ls))
   \<and> nextNodeIdRef (fold appendTextLog (l # ls) s) = nextNodeIdRef s + length (l # ls)"
proof (induction ls arbitrary: l s)
  case Nil
  then show ?case
    by (simp add: appendTextLog_tree appendTextLog_counter splitLines_single)
next
  case (Cons l' ls)
  have sl: "splitLines l = [l]" using Cons.prems by (simp add: splitLines_single)
  let ?s1 = "appendTextLog l s"
  let ?one = "[textNode (nodeIdOfCounter (Suc (nextNodeIdRef s))) l]"
  let ?rest = "textNodesFrom (Suc (nextNodeIdRef s)) (l' # ls)"
  have t1: "logTree ?s1 = drop (length (logTree s @ ?one) - LOG_MAX_LINES) (logTree s @ ?one)"
    by (simp add: appendTextLog_tree sl textNodesFrom_def)
  have c1: "nextNodeIdRef ?s1 = Suc (nextNodeIdRef s)"
    by (simp add: appendTextLog_counter sl)
  have ih: "logTree (fold appendTextLog (l' # ls) ?s1) =
     drop (length (logTree ?s1 @ textNodesFrom (nextNodeIdRef ?s1) (l' # ls)) - LOG_MAX_LINES)
          (logTree ?s1 @ textNodesFrom (nextNodeIdRef ?s1) (l' # ls))
   \<and> nextNodeIdRef (fold appendTextLog (l' # ls) ?s1) = nextNodeIdRef ?s1 + length (l' # ls)"
    using Cons.prems by (intro Cons.IH) simp
  have step: "drop (length (logTree ?s1 @ ?rest) - LOG_MAX_LINES) (logTree ?s1 @ ?rest)
      = drop (length ((logTree s @ ?one) @ ?rest) - LOG_MAX_LINES) ((logTree s @ ?one) @ ?rest)"
    unfolding t1 by (rule capTail_capTail)
  have unf: "textNodesFrom (nextNodeIdRef s) (l # l' # ls) = ?one @ ?rest"
    by (simp add: textNodesFrom_Cons)
  have "logTree (fold appendTextLog (l # l' # ls) s) = logTree (fold appendTextLog (l' # ls) ?s1)"
    by simp
  also have "\<dots> = drop (length (logTree ?s1 @ ?rest) - LOG_MAX_LINES) (logTree ?s1 @ ?rest)"
    using ih c1 by simp
  also have "\<dots> = drop (length ((logTree s @ ?one) @ ?rest) - LOG_MAX_LINES) ((logTree s @ ?one) @ ?rest)"
    by (rule step)
  finally have A: "logTree (fold appendTextLog (l # l' # ls) s) =
     drop (length (logTree s @ textNodesFrom (nextNodeIdRef s) (l # l' # ls)) - LOG_MAX_LINES)
          (logTree s @ textNodesFrom (nextNodeIdRef s) (l # l' # ls))"
    unfolding unf by simp
  have B: "nextNodeIdRef (fold appendTextLog (l # l' # ls) s) = nextNodeIdRef s + length (l # l' # ls)"
    using ih c1 by simp
  show ?case using A B by blast
qed

lemma fold_appendTextLog_overflow:
  assumes single: "\<forall>x\<in>set ls. CHR 0x0A \<notin> set x"
      and len: "length ls = Suc LOG_MAX_LINES"
  shows "logTree (fold appendTextLog ls s) = textNodesFrom (Suc (nextNodeIdRef s)) (tl ls)"
proof -
  obtain l ls' where ls: "ls = l # ls'" using len by (cases ls) auto
  have len': "length ls' = LOG_MAX_LINES" using len ls by simp
  have "logTree (fold appendTextLog ls s) =
     drop (length (logTree s @ textNodesFrom (nextNodeIdRef s) (l # ls')) - LOG_MAX_LINES)
          (logTree s @ textNodesFrom (nextNodeIdRef s) (l # ls'))"
    using fold_appendTextLog[of l ls' s] single ls by simp
  also have "\<dots> = textNodesFrom (Suc (nextNodeIdRef s)) ls'"
    by (simp add: textNodesFrom_Cons length_textNodesFrom len')
  finally show ?thesis by (simp add: ls)
qed

text \<open>
  C3.  Appending \<open>LOG_MAX_LINES + 1\<close> single text lines to the log store, whatever it held
  before, leaves exactly the last \<open>LOG_MAX_LINES\<close> of them, in the order of the appends and
  under the ids they were given; the first one is gone.  More generally an append of text
  lines, of an entry, or of a new request node to the network store builds the list
  \<open>next\<close> of the old roots followed by the new ones and keeps its last
  \<open>LOG_MAX_LINES\<close> (\<open>NET_MAX_ITEMS\<close>) elements: the oldest roots are dropped from the front
  until the number of roots is the cap.  The count is the number of roots of the forest.
\<close>

theorem cap_enforcement:
  "((\<forall>x\<in>set ls. CHR 0x0A \<notin> set x) \<and> length ls = Suc LOG_MAX_LINES \<longrightarrow>
      logTree (fold appendTextLog ls s) = textNodesFrom (Suc (nextNodeIdRef s)) (tl ls)
      \<and> map (\<lambda>n. ntext (flds n)) (logTree (fold appendTextLog ls s)) = map Some (tl ls))
   \<and> (let next = logTree s @ textNodesFrom (nextNodeIdRef s) (splitLines line) in
        logTree (appendTextLog line s) = drop (length next - LOG_MAX_LINES) next
        \<and> length (logTree (appendTextLog line s)) = min (length next) LOG_MAX_LINES)
   \<and> (let next = logTree s @ [entryNode (nodeIdOfCounter (Suc (nextNodeIdRef s))) lbl as ts] in
        logTree (appendEntryLog lbl as ts s) = drop (length next - LOG_MAX_LINES) next
        \<and> length (logTree (appendEntryLog lbl as ts s)) = min (length next) LOG_MAX_LINES)
   \<and> (findNodeById (netTree t) (''net:'' @ rid) = None \<longrightarrow>
        (let next = netTree t @ [netEntry (''net:'' @ rid) (getNetLabel ft now rid t)
                                   \<lparr>requestId = rid, role = RoleRequest, which = None\<rparr> []] in
           netTree (ensureNetRequestNode ft now rid t) = drop (length next - NET_MAX_ITEMS) next
           \<and> length (netTree (ensureNetRequestNode ft now rid t)) = min (length next) NET_MAX_ITEMS))"
proof -
  have A: "(\<forall>x\<in>set ls. CHR 0x0A \<notin> set x) \<and> length ls = Suc LOG_MAX_LINES \<longrightarrow>
      logTree (fold appendTextLog ls s) = textNodesFrom (Suc (nextNodeIdRef s)) (tl ls)
      \<and> map (\<lambda>n. ntext (flds n)) (logTree (fold appendTextLog ls s)) = map Some (tl ls)"
    by (simp add: fold_appendTextLog_overflow text_textNodesFrom)
  have B: "let next = logTree s @ textNodesFrom (nextNodeIdRef s) (splitLines line) in
        logTree (appendTextLog line s) = drop (length next - LOG_MAX_LINES) next
        \<and> length (logTree (appendTextLog line s)) = min (length next) LOG_MAX_LINES"
    unfolding Let_def appendTextLog_tree length_capTail by simp
  have C: "let next = logTree s @ [entryNode (nodeIdOfCounter (Suc (nextNodeIdRef s))) lbl as ts] in
        logTree (appendEntryLog lbl as ts s) = drop (length next - LOG_MAX_LINES) next
        \<and> length (logTree (appendEntryLog lbl as ts s)) = min (length next) LOG_MAX_LINES"
    unfolding Let_def appendEntryLog_tree length_capTail by simp
  have D: "findNodeById (netTree t) (''net:'' @ rid) = None \<longrightarrow>
        (let next = netTree t @ [netEntry (''net:'' @ rid) (getNetLabel ft now rid t)
                                   \<lparr>requestId = rid, role = RoleRequest, which = None\<rparr> []] in
           netTree (ensureNetRequestNode ft now rid t) = drop (length next - NET_MAX_ITEMS) next
           \<and> length (netTree (ensureNetRequestNode ft now rid t)) = min (length next) NET_MAX_ITEMS)"
  proof
    assume a: "findNodeById (netTree t) (''net:'' @ rid) = None"
    show "let next = netTree t @ [netEntry (''net:'' @ rid) (getNetLabel ft now rid t)
                                   \<lparr>requestId = rid, role = RoleRequest, which = None\<rparr> []] in
           netTree (ensureNetRequestNode ft now rid t) = drop (length next - NET_MAX_ITEMS) next
           \<and> length (netTree (ensureNetRequestNode ft now rid t)) = min (length next) NET_MAX_ITEMS"
      unfolding Let_def ensureNetRequestNode_new[OF a] length_capTail by simp
  qed
  show ?thesis using A B C D by blast
qed

theorem cap_enforcement_witness:
  "map (\<lambda>n. ntext (flds n))
       (logTree (fold appendTextLog (''oldest'' # replicate LOG_MAX_LINES ''newer'') initLogStore))
     = replicate LOG_MAX_LINES (Some ''newer'')
   \<and> map (\<lambda>n. nid (flds n)) (netTree (ensureNetRequestNode (\<lambda>t. ''12:00'') 0 ''r1'' initNetStore))
     = [''net:r1'']"
proof -
  let ?ls = "''oldest'' # replicate LOG_MAX_LINES ''newer''"
  have h1: "(\<forall>x\<in>set ?ls. CHR 0x0A \<notin> set x) \<and> length ?ls = Suc LOG_MAX_LINES"
    by simp
  have h2: "findNodeById (netTree initNetStore) (''net:'' @ ''r1'') = None"
    by (simp add: initNetStore_def)
  note inst = cap_enforcement[of ?ls initLogStore "''x''" "''e''" "[]" None initNetStore "''r1''"
      "\<lambda>t. ''12:00''" 0]
  have r1: "map (\<lambda>n. ntext (flds n)) (logTree (fold appendTextLog ?ls initLogStore)) = map Some (tl ?ls)"
    using inst h1 by blast
  have r2: "netTree (ensureNetRequestNode (\<lambda>t. ''12:00'') 0 ''r1'' initNetStore) =
      (let next = netTree initNetStore @ [netEntry (''net:'' @ ''r1'')
                    (getNetLabel (\<lambda>t. ''12:00'') 0 ''r1'' initNetStore)
                    \<lparr>requestId = ''r1'', role = RoleRequest, which = None\<rparr> []]
       in drop (length next - NET_MAX_ITEMS) next)"
    using inst h2 unfolding Let_def by blast
  have r2': "map (\<lambda>n. nid (flds n)) (netTree (ensureNetRequestNode (\<lambda>t. ''12:00'') 0 ''r1'' initNetStore))
     = [''net:r1'']"
    unfolding r2 by (simp add: initNetStore_def netEntry_def mkFields_def NET_MAX_ITEMS_def)
  show ?thesis using r1 r2' by simp
qed

section \<open>Filtering at the roots\<close>

lemma flatten_Cons:
  "flattenLogTree fmt (n # ns) p d = flattenLogTree fmt [n] p d @ flattenLogTree fmt ns p d"
  by (cases n) simp

lemma flatten_filter:
  "flattenLogTree fmt (filter P ns) p d =
     concat (map (\<lambda>n. if P n then flattenLogTree fmt [n] p d else []) ns)"
proof (induction ns)
  case Nil
  show ?case by simp
next
  case (Cons n ns)
  show ?case
  proof (cases "P n")
    case True
    then show ?thesis using Cons.IH flatten_Cons[of fmt n "filter P ns" p d] by simp
  next
    case False
    then show ?thesis using Cons.IH by simp
  qed
qed

lemma logRootMatches_children:
  "logRootMatches fmt q (LogNode f cs) = logRootMatches fmt q (LogNode f cs')"
  by (simp add: logRootMatches_def)

lemma netRootMatches_children:
  "netRootMatches q (LogNode f cs) = netRootMatches q (LogNode f cs')"
  by (simp add: netRootMatches_def)

lemma q_needle: "toLowerCase (trim ''needle'') = ''needle''"
  by code_simp

lemma q_alpha: "toLowerCase (trim ''alpha'') = ''alpha''"
  by code_simp

lemma inc_alpha: "strIncludes (toLowerCase ''alpha '') ''alpha''"
  by code_simp

lemma inc_needle: "\<not> strIncludes (toLowerCase ''alpha '') ''needle''"
  by code_simp

lemma alpha_log_needle:
  "flatLogs fmt (initLogStore\<lparr>logTree := alphaNeedle e, logSearchQuery := ''needle''\<rparr>) = []"
  by (simp add: flatLogs_def filteredLogTree_def q_needle alphaNeedle_def logRootMatches_def
      mkFields_def inc_needle)

lemma alpha_log_alpha:
  "map nodeId (flatLogs fmt (initLogStore\<lparr>logTree := alphaNeedle e, logSearchQuery := ''alpha''\<rparr>))
     = (if e then [''a'', ''b''] else [''a''])"
  by (simp add: flatLogs_def filteredLogTree_def q_alpha alphaNeedle_def logRootMatches_def
      mkFields_def inc_alpha)

lemma alpha_net_needle:
  "flatNet fmt (initNetStore\<lparr>netTree := alphaNeedle e, netSearchQuery := ''needle''\<rparr>) = []"
  by (simp add: flatNet_def filteredNetTree_def q_needle alphaNeedle_def netRootMatches_def
      mkFields_def inc_needle)

lemma alpha_net_alpha:
  "map nodeId (flatNet fmt (initNetStore\<lparr>netTree := alphaNeedle e, netSearchQuery := ''alpha''\<rparr>))
     = (if e then [''a'', ''b''] else [''a''])"
  by (simp add: flatNet_def filteredNetTree_def q_alpha alphaNeedle_def netRootMatches_def
      mkFields_def inc_alpha)

text \<open>
  C4.  With a non-empty query (trimmed, lower case) the flattened sequence of a store is the
  concatenation, over the roots in order, of the flattening of each root that matches and of
  nothing for a root that does not: such a root is left out with its whole subtree.  Whether a
  root matches does not depend on its children (the log store matches the root's label, text
  and the previews of its own arguments, the network store its label and text).  For the
  root entry \<open>alpha\<close> with the one child \<open>needle\<close>, the query \<open>needle\<close> gives no line, and the
  query \<open>alpha\<close> gives the root and, if the root is expanded, the child.
\<close>

theorem root_only_filter:
  "(toLowerCase (trim (logSearchQuery s)) \<noteq> [] \<longrightarrow>
      flatLogs fmt s =
        concat (map (\<lambda>n. if logRootMatches fmt (toLowerCase (trim (logSearchQuery s))) n
                          then flattenLogTree fmt [n] None 0 else []) (logTree s)))
   \<and> (toLowerCase (trim (netSearchQuery t)) \<noteq> [] \<longrightarrow>
      flatNet fmt t =
        concat (map (\<lambda>n. if netRootMatches (toLowerCase (trim (netSearchQuery t))) n
                          then flattenLogTree fmt [n] None 0 else []) (netTree t)))
   \<and> logRootMatches fmt q (LogNode f cs) = logRootMatches fmt q (LogNode f cs')
   \<and> netRootMatches q (LogNode f cs) = netRootMatches q (LogNode f cs')
   \<and> flatLogs fmt (initLogStore\<lparr>logTree := alphaNeedle e, logSearchQuery := ''needle''\<rparr>) = []
   \<and> map nodeId (flatLogs fmt (initLogStore\<lparr>logTree := alphaNeedle e, logSearchQuery := ''alpha''\<rparr>))
       = (if e then [''a'', ''b''] else [''a''])
   \<and> flatNet fmt (initNetStore\<lparr>netTree := alphaNeedle e, netSearchQuery := ''needle''\<rparr>) = []
   \<and> map nodeId (flatNet fmt (initNetStore\<lparr>netTree := alphaNeedle e, netSearchQuery := ''alpha''\<rparr>))
       = (if e then [''a'', ''b''] else [''a''])"
proof -
  have A: "toLowerCase (trim (logSearchQuery s)) \<noteq> [] \<longrightarrow>
      flatLogs fmt s =
        concat (map (\<lambda>n. if logRootMatches fmt (toLowerCase (trim (logSearchQuery s))) n
                          then flattenLogTree fmt [n] None 0 else []) (logTree s))"
    by (simp add: flatLogs_def filteredLogTree_def Let_def flatten_filter)
  have B: "toLowerCase (trim (netSearchQuery t)) \<noteq> [] \<longrightarrow>
      flatNet fmt t =
        concat (map (\<lambda>n. if netRootMatches (toLowerCase (trim (netSearchQuery t))) n
                          then flattenLogTree fmt [n] None 0 else []) (netTree t))"
    by (simp add: flatNet_def filteredNetTree_def Let_def flatten_filter)
  show ?thesis
    using A B logRootMatches_children[of fmt q f cs cs'] netRootMatches_children[of q f cs cs']
      alpha_log_needle[of fmt e] alpha_log_alpha[of fmt e] alpha_net_needle[of fmt e]
      alpha_net_alpha[of fmt e]
    by blast
qed

theorem root_only_filter_witness:
  "flatLogs descFmt (initLogStore\<lparr>logTree := alphaNeedle True, logSearchQuery := ''Needle ''\<rparr>) = []
   \<and> map nodeId (flatNet descFmt (initNetStore\<lparr>netTree := alphaNeedle True, netSearchQuery := '' ALPHA''\<rparr>))
       = [''a'', ''b'']"
proof -
  let ?s = "initLogStore\<lparr>logTree := alphaNeedle True, logSearchQuery := ''Needle ''\<rparr>"
  let ?t = "initNetStore\<lparr>netTree := alphaNeedle True, netSearchQuery := '' ALPHA''\<rparr>"
  have q1: "toLowerCase (trim (logSearchQuery ?s)) = ''needle''" by code_simp
  have q2: "toLowerCase (trim (netSearchQuery ?t)) = ''alpha''" by code_simp
  have h1: "toLowerCase (trim (logSearchQuery ?s)) \<noteq> []" unfolding q1 by simp
  have h2: "toLowerCase (trim (netSearchQuery ?t)) \<noteq> []" unfolding q2 by simp
  have m1: "\<not> logRootMatches descFmt ''needle'' (hd (alphaNeedle True))"
    by (simp add: alphaNeedle_def logRootMatches_def mkFields_def inc_needle)
  have m2: "netRootMatches ''alpha'' (hd (alphaNeedle True))"
    by (simp add: alphaNeedle_def netRootMatches_def mkFields_def inc_alpha)
  have f1: "flatLogs descFmt ?s =
        concat (map (\<lambda>n. if logRootMatches descFmt ''needle'' n
                          then flattenLogTree descFmt [n] None 0 else []) (logTree ?s))"
    using root_only_filter[of ?s descFmt ?t] h1 unfolding q1 by blast
  have f2: "flatNet descFmt ?t =
        concat (map (\<lambda>n. if netRootMatches ''alpha'' n
                          then flattenLogTree descFmt [n] None 0 else []) (netTree ?t))"
    using root_only_filter[of ?s descFmt ?t] h2 unfolding q2 by blast
  have r1: "flatLogs descFmt ?s = []"
    unfolding f1 using m1 by (simp add: alphaNeedle_def)
  have r2: "map nodeId (flatNet descFmt ?t) = [''a'', ''b'']"
    unfolding f2 using m2 by (simp add: alphaNeedle_def mkFields_def)
  show ?thesis using r1 r2 by blast
qed

section \<open>Merging network events into records\<close>

lemma find_append:
  "findNodeById (xs @ ys) i =
     (case findNodeById xs i of Some n \<Rightarrow> Some n | None \<Rightarrow> findNodeById ys i)"
  by (induction xs i rule: findNodeById.induct) (auto split: option.splits)

lemma idsOf_append: "idsOf (xs @ ys) = idsOf xs @ idsOf ys"
  by (induction xs rule: idsOf.induct) auto

lemma idsOf_drop: "set (idsOf (drop k xs)) \<subseteq> set (idsOf xs)"
proof -
  have "idsOf xs = idsOf (take k xs) @ idsOf (drop k xs)"
    using idsOf_append[of "take k xs" "drop k xs"] by simp
  then show ?thesis by auto
qed

lemma trimEnd_keep: "ys \<noteq> [] \<Longrightarrow> \<not> isSpaceChar (last ys) \<Longrightarrow> trimEnd (xs @ ys) = xs @ ys"
  by (cases ys rule: rev_cases) (auto simp: trimEnd_def)

lemma strIncludes_prefix: "strIncludes (q @ zs) q"
proof (cases "q @ zs")
  case Nil
  then show ?thesis by simp
next
  case (Cons a list)
  have "prefix q (q @ zs)" by simp
  then show ?thesis unfolding Cons by simp
qed

lemma find_Some_id: "findNodeById ns i = Some n \<Longrightarrow> nid (flds n) = i"
  by (induction ns i rule: findNodeById.induct) (auto split: if_splits option.splits)

lemma strIncludes_append: "strIncludes (xs @ q @ zs) q"
proof (induction xs)
  case Nil
  show ?case using strIncludes_prefix by simp
next
  case (Cons x xs)
  then show ?case by simp
qed

lemma getNetLabel_cong:
  "netByIdRef s rid = netByIdRef s' rid \<Longrightarrow> getNetLabel ft now rid s = getNetLabel ft now rid s'"
  by (simp add: getNetLabel_def)

lemma ensure_records [simp]: "netByIdRef (ensureNetRequestNode ft now rid s) = netByIdRef s"
  by (simp add: ensureNetRequestNode_def Let_def)

lemma updateLabel_records [simp]: "netByIdRef (updateNetNodeLabel ft now se rid s) = netByIdRef s"
  by (simp add: updateNetNodeLabel_def split: prod.splits)

lemma NET_MAX_pos: "0 < NET_MAX_ITEMS" by (simp add: NET_MAX_ITEMS_def)

lemma ensure_find:
  "\<exists>n. findNodeById (netTree (ensureNetRequestNode ft now rid s)) (''net:'' @ rid) = Some n
       \<and> label (flds n) = Some (getNetLabel ft now rid s)"
proof (cases "findNodeById (netTree s) (''net:'' @ rid)")
  case None
  let ?new = "netEntry (''net:'' @ rid) (getNetLabel ft now rid s)
                \<lparr>requestId = rid, role = RoleRequest, which = None\<rparr> []"
  let ?k = "length (netTree s @ [?new]) - NET_MAX_ITEMS"
  have k: "?k \<le> length (netTree s)" using NET_MAX_pos by simp
  have t: "netTree (ensureNetRequestNode ft now rid s) = drop ?k (netTree s) @ [?new]"
    using None k by (simp add: ensureNetRequestNode_def Let_def capNet_def)
  have "(''net:'' @ rid) \<notin> set (idsOf (netTree s))" using None by (simp add: find_None_iff)
  then have "(''net:'' @ rid) \<notin> set (idsOf (drop ?k (netTree s)))" using idsOf_drop by blast
  then have "findNodeById (drop ?k (netTree s)) (''net:'' @ rid) = None" by (simp add: find_None_iff)
  then have "findNodeById (netTree (ensureNetRequestNode ft now rid s)) (''net:'' @ rid) = Some ?new"
    unfolding t by (simp add: find_append netEntry_def mkFields_def)
  then show ?thesis by (simp add: netEntry_def)
next
  case (Some n)
  let ?g = "\<lambda>n. LogNode ((flds n)\<lparr>label := Some (getNetLabel ft now rid s)\<rparr>) (children n)"
  have t: "netTree (ensureNetRequestNode ft now rid s)
             = fst (mapUpdate (netTree s) (''net:'' @ rid) (pureUpd ?g) ())"
    using Some by (simp add: ensureNetRequestNode_def Let_def updateNodeById_mapUpdate)
  have idn: "nid (flds n) = ''net:'' @ rid"
    using Some by (rule find_Some_id)
  have "findNodeById (fst (mapUpdate (netTree s) (''net:'' @ rid) (pureUpd ?g) ())) (''net:'' @ rid)
          = Some (fst (pureUpd ?g n ()))"
    by (rule find_mapUpdate_first[OF Some]) (simp add: pureUpd_def idn)
  then show ?thesis unfolding t by (simp add: pureUpd_def)
qed


lemma updateLabel_find:
  assumes f: "findNodeById (netTree s) (''net:'' @ rid) = Some n"
  shows "\<exists>n'. findNodeById (netTree (updateNetNodeLabel ft now se rid s)) (''net:'' @ rid) = Some n'
       \<and> label (flds n') = Some (getNetLabel ft now rid s)"
proof -
  define u where "u = (\<lambda>n c. let (cs, c') = (if length (children n) > 0
                                     then buildNetChildren se rid s c
                                     else (children n, c))
                     in (LogNode ((flds n)\<lparr>label := Some (getNetLabel ft now rid s)\<rparr>) cs, c'))"
  have idn: "nid (flds n) = ''net:'' @ rid" using f by (rule find_Some_id)
  have fl: "flds (fst (u m c)) = (flds m)\<lparr>label := Some (getNetLabel ft now rid s)\<rparr>" for m c
    by (simp add: u_def Let_def split: prod.splits)
  have t: "netTree (updateNetNodeLabel ft now se rid s)
             = fst (mapUpdate (netTree s) (''net:'' @ rid) u (netNextNodeIdRef s))"
    by (simp add: updateNetNodeLabel_def updateNodeById_mapUpdate u_def)
  have "findNodeById (fst (mapUpdate (netTree s) (''net:'' @ rid) u (netNextNodeIdRef s))) (''net:'' @ rid)
          = Some (fst (u n (netNextNodeIdRef s)))"
    by (rule find_mapUpdate_first[OF f]) (simp add: fl idn)
  then show ?thesis unfolding t using fl by simp
qed

lemma onNetworkUpdate_find:
  "\<exists>n. findNodeById (netTree (onNetworkUpdate ft now se rid p s)) (''net:'' @ rid) = Some n
       \<and> label (flds n) = Some (getNetLabel ft now rid (upsertNet rid p s))"
proof -
  let ?s1 = "ensureNetRequestNode ft now rid (upsertNet rid p s)"
  obtain n where n: "findNodeById (netTree ?s1) (''net:'' @ rid) = Some n"
    using ensure_find[of ft now rid "upsertNet rid p s"] by blast
  have "getNetLabel ft now rid ?s1 = getNetLabel ft now rid (upsertNet rid p s)"
    by (rule getNetLabel_cong) simp
  then show ?thesis using updateLabel_find[OF n, of ft now se] by (simp add: onNetworkUpdate_def)
qed

lemma onNetworkUpdate_records:
  "netByIdRef (onNetworkUpdate ft now se rid p s) = netByIdRef (upsertNet rid p s)"
  by (simp add: onNetworkUpdate_def)

lemma onNetworkRequest_records:
  "netByIdRef (onNetworkRequest ft now rid p s) = netByIdRef (upsertNet rid p s)"
  by (simp add: onNetworkRequest_def)

lemma upsertNet_lookup:
  "netByIdRef (upsertNet rid p s) rid' =
     (if rid' = rid
      then Some (mergeRecord (case netByIdRef s rid of Some r \<Rightarrow> r | None \<Rightarrow> newRecord rid) p)
      else netByIdRef s rid')"
  by (simp add: upsertNet_def Let_def)

lemma s200: "string_of_int 200 = ''200''"
  by code_simp

lemma label_exact:
  "trimEnd (''['' @ tm @ ''] '' @ ''GET'' @ '' '' @ ''http://a'' @ '' '' @ ''200'')
     = ''['' @ tm @ ''] GET http://a 200''"
proof -
  have e: "''['' @ tm @ ''] '' @ ''GET'' @ '' '' @ ''http://a'' @ '' '' @ ''200''
             = (''['' @ tm @ ''] '') @ ''GET http://a 200''" by simp
  have k: "trimEnd ((''['' @ tm @ ''] '') @ ''GET http://a 200'') = (''['' @ tm @ ''] '') @ ''GET http://a 200''"
    by (rule trimEnd_keep) (simp_all add: isSpaceChar_def)
  show ?thesis unfolding e k by simp
qed

lemma label_contains: "strIncludes (''['' @ tm @ ''] GET http://a 200'') ''GET http://a 200''"
  using strIncludes_append[of "''['' @ tm @ ''] ''" "''GET http://a 200''" "[]"] by simp

lemma scenario:
  fixes rq :: RequestWillBeSent and rs :: ResponseReceived and lf :: LoadingFinished
    and s :: NetStore and ft :: "int \<Rightarrow> string" and n1 n2 n3 :: int and se :: "headers \<Rightarrow> headers"
  assumes fresh: "netByIdRef s ''r1'' = None"
  defines "e1 \<equiv> rq\<lparr>rq_requestId := Some ''r1'', rq_method := Some ''GET'', rq_url := Some ''http://a''\<rparr>"
      and "e2 \<equiv> rs\<lparr>rs_requestId := Some ''r1'', rs_status := Some 200\<rparr>"
      and "e3 \<equiv> lf\<lparr>lf_requestId := Some ''r1'', lf_encodedDataLength := Some 512\<rparr>"
  defines "s3 \<equiv> networkEvent ft n3 se (EvLoadingFinished e3)
                   (networkEvent ft n2 se (EvResponseReceived e2)
                      (networkEvent ft n1 se (EvRequestWillBeSent e1) s))"
  shows "(\<exists>r. netByIdRef s3 ''r1'' = Some r \<and> httpMethod r = Some ''GET'' \<and> url r = Some ''http://a''
               \<and> status r = Some 200 \<and> encodedDataLength r = Some 512)
       \<and> (\<exists>n l. findNodeById (netTree s3) ''net:r1'' = Some n \<and> label (flds n) = Some l
               \<and> l = ''['' @ ft (case rq_timestamp rq of Some t \<Rightarrow> t | None \<Rightarrow> n3) @ ''] GET http://a 200''
               \<and> strIncludes l ''GET http://a 200'')"
proof -
  let ?s1 = "onNetworkRequest ft n1 ''r1'' (requestPatch e1) s"
  let ?s2 = "onNetworkUpdate ft n2 se ''r1'' (responsePatch e2) ?s1"
  let ?r3 = "mergeRecord (mergeRecord (mergeRecord (newRecord ''r1'') (requestPatch e1)) (responsePatch e2))
                (finishedPatch e3)"
  have s3: "s3 = onNetworkUpdate ft n3 se ''r1'' (finishedPatch e3) ?s2"
    by (simp add: s3_def e1_def e2_def e3_def strOr_def Let_def)
  have rec2: "netByIdRef ?s2 ''r1'' = Some (mergeRecord (mergeRecord (newRecord ''r1'') (requestPatch e1)) (responsePatch e2))"
    by (simp add: onNetworkUpdate_records onNetworkRequest_records upsertNet_lookup fresh)
  have rec3: "netByIdRef (upsertNet ''r1'' (finishedPatch e3) ?s2) ''r1'' = Some ?r3"
    by (simp add: upsertNet_lookup rec2)
  have rec: "netByIdRef s3 ''r1'' = Some ?r3"
    unfolding s3 onNetworkUpdate_records by (rule rec3)
  have fieldsr: "httpMethod ?r3 = Some ''GET'' \<and> url ?r3 = Some ''http://a'' \<and> status ?r3 = Some 200
        \<and> encodedDataLength ?r3 = Some 512 \<and> errorText ?r3 = None
        \<and> startTimestamp ?r3 = rq_timestamp rq"
    by (simp add: mergeRecord_def spreadKey_def requestPatch_def responsePatch_def finishedPatch_def
        emptyPatch_def newRecord_def e1_def e2_def e3_def strOr_def)
  obtain n where n: "findNodeById (netTree s3) (''net:'' @ ''r1'') = Some n"
      and l: "label (flds n) = Some (getNetLabel ft n3 ''r1'' (upsertNet ''r1'' (finishedPatch e3) ?s2))"
    unfolding s3 using onNetworkUpdate_find[of ft n3 se "''r1''" "finishedPatch e3" ?s2] by blast
  have lab: "getNetLabel ft n3 ''r1'' (upsertNet ''r1'' (finishedPatch e3) ?s2)
        = trimEnd (''['' @ ft (case rq_timestamp rq of Some t \<Rightarrow> t | None \<Rightarrow> n3) @ ''] '' @ ''GET'' @ '' ''
                   @ ''http://a'' @ '' '' @ ''200'')"
    unfolding getNetLabel_def rec3 using fieldsr by (simp add: truthyStr_def s200)
  have lab': "getNetLabel ft n3 ''r1'' (upsertNet ''r1'' (finishedPatch e3) ?s2)
        = ''['' @ ft (case rq_timestamp rq of Some t \<Rightarrow> t | None \<Rightarrow> n3) @ ''] GET http://a 200''"
    unfolding lab by (rule label_exact)
  have inc: "strIncludes (getNetLabel ft n3 ''r1'' (upsertNet ''r1'' (finishedPatch e3) ?s2)) ''GET http://a 200''"
    unfolding lab' by (rule label_contains)
  have P1: "\<exists>r. netByIdRef s3 ''r1'' = Some r \<and> httpMethod r = Some ''GET'' \<and> url r = Some ''http://a''
               \<and> status r = Some 200 \<and> encodedDataLength r = Some 512"
    using rec fieldsr by blast
  have P2: "\<exists>n l. findNodeById (netTree s3) ''net:r1'' = Some n \<and> label (flds n) = Some l
               \<and> l = ''['' @ ft (case rq_timestamp rq of Some t \<Rightarrow> t | None \<Rightarrow> n3) @ ''] GET http://a 200''
               \<and> strIncludes l ''GET http://a 200''"
    using n l lab' inc by simp
  show ?thesis using P1 P2 by blast
qed

lemma mergeRecord_keeps:
  "recRequestId (mergeRecord r p) = recRequestId r
   \<and> (p_startTimestamp p = None \<longrightarrow> startTimestamp (mergeRecord r p) = startTimestamp r)
   \<and> (p_endTimestamp p = None \<longrightarrow> endTimestamp (mergeRecord r p) = endTimestamp r)
   \<and> (p_httpMethod p = None \<longrightarrow> httpMethod (mergeRecord r p) = httpMethod r)
   \<and> (p_url p = None \<longrightarrow> url (mergeRecord r p) = url r)
   \<and> (p_requestHeaders p = None \<longrightarrow> requestHeaders (mergeRecord r p) = requestHeaders r)
   \<and> (p_responseHeaders p = None \<longrightarrow> responseHeaders (mergeRecord r p) = responseHeaders r)
   \<and> (p_postData p = None \<longrightarrow> postData (mergeRecord r p) = postData r)
   \<and> (p_initiator p = None \<longrightarrow> initiator (mergeRecord r p) = initiator r)
   \<and> (p_resourceType p = None \<longrightarrow> resourceType (mergeRecord r p) = resourceType r)
   \<and> (p_status p = None \<longrightarrow> status (mergeRecord r p) = status r)
   \<and> (p_statusText p = None \<longrightarrow> statusText (mergeRecord r p) = statusText r)
   \<and> (p_mimeType p = None \<longrightarrow> mimeType (mergeRecord r p) = mimeType r)
   \<and> (p_protocol p = None \<longrightarrow> protocol (mergeRecord r p) = protocol r)
   \<and> (p_remoteIPAddress p = None \<longrightarrow> remoteIPAddress (mergeRecord r p) = remoteIPAddress r)
   \<and> (p_remotePort p = None \<longrightarrow> remotePort (mergeRecord r p) = remotePort r)
   \<and> (p_fromDiskCache p = None \<longrightarrow> fromDiskCache (mergeRecord r p) = fromDiskCache r)
   \<and> (p_fromServiceWorker p = None \<longrightarrow> fromServiceWorker (mergeRecord r p) = fromServiceWorker r)
   \<and> (p_encodedDataLength p = None \<longrightarrow> encodedDataLength (mergeRecord r p) = encodedDataLength r)
   \<and> (p_errorText p = None \<longrightarrow> errorText (mergeRecord r p) = errorText r)
   \<and> (p_canceled p = None \<longrightarrow> canceled (mergeRecord r p) = canceled r)
   \<and> (p_responseBody p = None \<longrightarrow> responseBody (mergeRecord r p) = responseBody r)"
  by (simp add: mergeRecord_def spreadKey_def)

text \<open>
  C5.  \<open>upsertNet\<close> stores, for the request id, the merge of the patch into the record that
  was there (or into a new record with that id) and leaves the records of other ids alone;
  the merge keeps the request id and every field whose key the patch does not have.  When no
  record exists for \<open>r1\<close>, the events request-started (\<open>r1\<close>, \<open>GET\<close>, \<open>http://a\<close>),
  response-received (\<open>r1\<close>, 200) and loading-finished (\<open>r1\<close>, 512 bytes), whatever their
  other fields, leave a record for \<open>r1\<close> that has the method, the url, the status and the
  byte count together, and the node \<open>net:r1\<close> is in the forest with the label
  \<open>[time] GET http://a 200\<close>, which contains \<open>GET http://a 200\<close>.
\<close>

theorem patch_merge_completeness:
  fixes rq :: RequestWillBeSent and rs :: ResponseReceived and lf :: LoadingFinished
    and s :: NetStore and ft :: "int \<Rightarrow> string" and n1 n2 n3 :: int and se :: "headers \<Rightarrow> headers"
  shows
  "netByIdRef (upsertNet rid p t) rid
      = Some (mergeRecord (case netByIdRef t rid of Some r0 \<Rightarrow> r0 | None \<Rightarrow> newRecord rid) p)
   \<and> (rid' \<noteq> rid \<longrightarrow> netByIdRef (upsertNet rid p t) rid' = netByIdRef t rid')
   \<and> recRequestId (mergeRecord r p) = recRequestId r
   \<and> (p_startTimestamp p = None \<longrightarrow> startTimestamp (mergeRecord r p) = startTimestamp r)
   \<and> (p_endTimestamp p = None \<longrightarrow> endTimestamp (mergeRecord r p) = endTimestamp r)
   \<and> (p_httpMethod p = None \<longrightarrow> httpMethod (mergeRecord r p) = httpMethod r)
   \<and> (p_url p = None \<longrightarrow> url (mergeRecord r p) = url r)
   \<and> (p_requestHeaders p = None \<longrightarrow> requestHeaders (mergeRecord r p) = requestHeaders r)
   \<and> (p_responseHeaders p = None \<longrightarrow> responseHeaders (mergeRecord r p) = responseHeaders r)
   \<and> (p_postData p = None \<longrightarrow> postData (mergeRecord r p) = postData r)
   \<and> (p_initiator p = None \<longrightarrow> initiator (mergeRecord r p) = initiator r)
   \<and> (p_resourceType p = None \<longrightarrow> resourceType (mergeRecord r p) = resourceType r)
   \<and> (p_status p = None \<longrightarrow> status (mergeRecord r p) = status r)
   \<and> (p_statusText p = None \<longrightarrow> statusText (mergeRecord r p) = statusText r)
   \<and> (p_mimeType p = None \<longrightarrow> mimeType (mergeRecord r p) = mimeType r)
   \<and> (p_protocol p = None \<longrightarrow> protocol (mergeRecord r p) = protocol r)
   \<and> (p_remoteIPAddress p = None \<longrightarrow> remoteIPAddress (mergeRecord r p) = remoteIPAddress r)
   \<and> (p_remotePort p = None \<longrightarrow> remotePort (mergeRecord r p) = remotePort r)
   \<and> (p_fromDiskCache p = None \<longrightarrow> fromDiskCache (mergeRecord r p) = fromDiskCache r)
   \<and> (p_fromServiceWorker p = None \<longrightarrow> fromServiceWorker (mergeRecord r p) = fromServiceWorker r)
   \<and> (p_encodedDataLength p = None \<longrightarrow> encodedDataLength (mergeRecord r p) = encodedDataLength r)
   \<and> (p_errorText p = None \<longrightarrow> errorText (mergeRecord r p) = errorText r)
   \<and> (p_canceled p = None \<longrightarrow> canceled (mergeRecord r p) = canceled r)
   \<and> (p_responseBody p = None \<longrightarrow> responseBody (mergeRecord r p) = responseBody r)
   \<and> (netByIdRef s ''r1'' = None \<longrightarrow>
        (let e1 = rq\<lparr>rq_requestId := Some ''r1'', rq_method := Some ''GET'', rq_url := Some ''http://a''\<rparr>;
             e2 = rs\<lparr>rs_requestId := Some ''r1'', rs_status := Some 200\<rparr>;
             e3 = lf\<lparr>lf_requestId := Some ''r1'', lf_encodedDataLength := Some 512\<rparr>;
             s3 = networkEvent ft n3 se (EvLoadingFinished e3)
                    (networkEvent ft n2 se (EvResponseReceived e2)
                       (networkEvent ft n1 se (EvRequestWillBeSent e1) s))
         in (\<exists>r3. netByIdRef s3 ''r1'' = Some r3 \<and> httpMethod r3 = Some ''GET''
                   \<and> url r3 = Some ''http://a'' \<and> status r3 = Some 200
                   \<and> encodedDataLength r3 = Some 512)
          \<and> (\<exists>n l. findNodeById (netTree s3) ''net:r1'' = Some n \<and> label (flds n) = Some l
                   \<and> l = ''['' @ ft (case rq_timestamp rq of Some t \<Rightarrow> t | None \<Rightarrow> n3)
                          @ ''] GET http://a 200''
                   \<and> strIncludes l ''GET http://a 200'')))"
proof -
  have A: "netByIdRef (upsertNet rid p t) rid
      = Some (mergeRecord (case netByIdRef t rid of Some r0 \<Rightarrow> r0 | None \<Rightarrow> newRecord rid) p)
   \<and> (rid' \<noteq> rid \<longrightarrow> netByIdRef (upsertNet rid p t) rid' = netByIdRef t rid')"
    by (simp add: upsertNet_lookup)
  have C: "netByIdRef s ''r1'' = None \<longrightarrow>
        (let e1 = rq\<lparr>rq_requestId := Some ''r1'', rq_method := Some ''GET'', rq_url := Some ''http://a''\<rparr>;
             e2 = rs\<lparr>rs_requestId := Some ''r1'', rs_status := Some 200\<rparr>;
             e3 = lf\<lparr>lf_requestId := Some ''r1'', lf_encodedDataLength := Some 512\<rparr>;
             s3 = networkEvent ft n3 se (EvLoadingFinished e3)
                    (networkEvent ft n2 se (EvResponseReceived e2)
                       (networkEvent ft n1 se (EvRequestWillBeSent e1) s))
         in (\<exists>r3. netByIdRef s3 ''r1'' = Some r3 \<and> httpMethod r3 = Some ''GET''
                   \<and> url r3 = Some ''http://a'' \<and> status r3 = Some 200
                   \<and> encodedDataLength r3 = Some 512)
          \<and> (\<exists>n l. findNodeById (netTree s3) ''net:r1'' = Some n \<and> label (flds n) = Some l
                   \<and> l = ''['' @ ft (case rq_timestamp rq of Some t \<Rightarrow> t | None \<Rightarrow> n3)
                          @ ''] GET http://a 200''
                   \<and> strIncludes l ''GET http://a 200''))"
  proof
    assume a: "netByIdRef s ''r1'' = None"
    show "(let e1 = rq\<lparr>rq_requestId := Some ''r1'', rq_method := Some ''GET'', rq_url := Some ''http://a''\<rparr>;
             e2 = rs\<lparr>rs_requestId := Some ''r1'', rs_status := Some 200\<rparr>;
             e3 = lf\<lparr>lf_requestId := Some ''r1'', lf_encodedDataLength := Some 512\<rparr>;
             s3 = networkEvent ft n3 se (EvLoadingFinished e3)
                    (networkEvent ft n2 se (EvResponseReceived e2)
                       (networkEvent ft n1 se (EvRequestWillBeSent e1) s))
         in (\<exists>r3. netByIdRef s3 ''r1'' = Some r3 \<and> httpMethod r3 = Some ''GET''
                   \<and> url r3 = Some ''http://a'' \<and> status r3 = Some 200
                   \<and> encodedDataLength r3 = Some 512)
          \<and> (\<exists>n l. findNodeById (netTree s3) ''net:r1'' = Some n \<and> label (flds n) = Some l
                   \<and> l = ''['' @ ft (case rq_timestamp rq of Some t \<Rightarrow> t | None \<Rightarrow> n3)
                          @ ''] GET http://a 200''
                   \<and> strIncludes l ''GET http://a 200''))"
      unfolding Let_def by (rule scenario[OF a])
  qed
  from A mergeRecord_keeps[of r p] C show ?thesis
    by (elim conjE) (intro conjI; assumption)
qed

theorem patch_merge_completeness_witness:
  "(let e1 = bareRequest\<lparr>rq_requestId := Some ''r1'', rq_method := Some ''GET'', rq_url := Some ''http://a''\<rparr>;
        e2 = bareResponse\<lparr>rs_requestId := Some ''r1'', rs_status := Some 200\<rparr>;
        e3 = bareFinished\<lparr>lf_requestId := Some ''r1'', lf_encodedDataLength := Some 512\<rparr>;
        s3 = networkEvent noonFmt 0 keepOrder (EvLoadingFinished e3)
               (networkEvent noonFmt 0 keepOrder (EvResponseReceived e2)
                  (networkEvent noonFmt 0 keepOrder (EvRequestWillBeSent e1) initNetStore))
    in (\<exists>r3. netByIdRef s3 ''r1'' = Some r3 \<and> httpMethod r3 = Some ''GET''
              \<and> url r3 = Some ''http://a'' \<and> status r3 = Some 200
              \<and> encodedDataLength r3 = Some 512)
     \<and> (\<exists>n. findNodeById (netTree s3) ''net:r1'' = Some n
              \<and> label (flds n) = Some ''[12:00] GET http://a 200''))"
proof -
  define s3 where "s3 = networkEvent noonFmt 0 keepOrder
       (EvLoadingFinished (bareFinished\<lparr>lf_requestId := Some ''r1'', lf_encodedDataLength := Some 512\<rparr>))
       (networkEvent noonFmt 0 keepOrder
          (EvResponseReceived (bareResponse\<lparr>rs_requestId := Some ''r1'', rs_status := Some 200\<rparr>))
          (networkEvent noonFmt 0 keepOrder
             (EvRequestWillBeSent (bareRequest\<lparr>rq_requestId := Some ''r1'', rq_method := Some ''GET'',
                 rq_url := Some ''http://a''\<rparr>)) initNetStore))"
  have h: "netByIdRef initNetStore ''r1'' = None" by (simp add: initNetStore_def)
  note inst = patch_merge_completeness[where s = initNetStore and rq = bareRequest and rs = bareResponse
        and lf = bareFinished and ft = noonFmt and se = keepOrder and ?n1.0 = 0 and ?n2.0 = 0
        and ?n3.0 = 0 and rid = "''r1''" and p = emptyPatch and t = initNetStore and rid' = "''r2''"
        and r = "newRecord ''r1''", unfolded Let_def, folded s3_def]
  have imp: "netByIdRef initNetStore ''r1'' = None \<longrightarrow>
          (\<exists>r3. netByIdRef s3 ''r1'' = Some r3 \<and> httpMethod r3 = Some ''GET''
                   \<and> url r3 = Some ''http://a'' \<and> status r3 = Some 200
                   \<and> encodedDataLength r3 = Some 512)
          \<and> (\<exists>n l. findNodeById (netTree s3) ''net:r1'' = Some n \<and> label (flds n) = Some l
                   \<and> l = ''['' @ noonFmt (case rq_timestamp bareRequest of Some t \<Rightarrow> t | None \<Rightarrow> 0)
                          @ ''] GET http://a 200''
                   \<and> strIncludes l ''GET http://a 200'')"
    using inst by (elim conjE) assumption
  note C = imp[THEN mp, OF h]
  from C[THEN conjunct2] obtain n l where f: "findNodeById (netTree s3) ''net:r1'' = Some n"
      and lb: "label (flds n) = Some l"
      and le: "l = ''['' @ noonFmt (case rq_timestamp bareRequest of Some t \<Rightarrow> t | None \<Rightarrow> 0)
                          @ ''] GET http://a 200''"
    by (elim exE conjE)
  have "label (flds n) = Some ''[12:00] GET http://a 200''"
    unfolding lb le by (simp add: noonFmt_def)
  with f have D: "\<exists>n. findNodeById (netTree s3) ''net:r1'' = Some n
              \<and> label (flds n) = Some ''[12:00] GET http://a 200''"
    by (intro exI conjI)
  show ?thesis unfolding Let_def s3_def[symmetric] using C[THEN conjunct1] D by (intro conjI)
qed

section \<open>One expansion in flight per store\<close>

lemma setLogTreeUpdate_flag [simp]: "isExpandingRef (setLogTreeUpdate i u s) = isExpandingRef s"
  by (simp add: setLogTreeUpdate_def split: prod.splits)

lemma setNetTreeUpdate_flag [simp]: "netIsExpandingRef (setNetTreeUpdate i u s) = netIsExpandingRef s"
  by (simp add: setNetTreeUpdate_def split: prod.splits)

lemma begin_guard: "isExpandingRef s \<Longrightarrow> toggleExpandSelected_begin fmt s = (s, None)"
  by (simp add: toggleExpandSelected_begin_def)

lemma net_begin_guard:
  "netIsExpandingRef t \<Longrightarrow> toggleNetExpandSelected_begin fmt se pj t = (t, None)"
  by (simp add: toggleNetExpandSelected_begin_def)

lemma begin_sets_flag:
  "toggleExpandSelected_begin fmt s = (s', Some p) \<Longrightarrow> isExpandingRef s'"
  unfolding toggleExpandSelected_begin_def Let_def
  by (auto split: if_splits option.splits)

lemma net_begin_sets_flag:
  "toggleNetExpandSelected_begin fmt se pj t = (t', Some p) \<Longrightarrow> netIsExpandingRef t'"
  unfolding toggleNetExpandSelected_begin_def Let_def
  by (auto split: if_splits option.splits)

lemma settle_clears: "\<not> isExpandingRef (toggleExpandSelected_settle target res s)"
  by (simp add: toggleExpandSelected_settle_def Let_def)

lemma net_settle_clears: "\<not> netIsExpandingRef (toggleNetExpandSelected_settle pj target rid res t)"
  by (simp add: toggleNetExpandSelected_settle_def Let_def)

text \<open>
  C1.  Each store has one flag for an expansion in flight.  While it is set, a request to
  expand or collapse on that store returns the store as it is and issues no fetch: the node
  it was for keeps its state, nothing is queued and the fetch in flight is not touched.  The
  flag is set whenever a request issues a fetch, and it is cleared when the fetch is settled,
  fulfilled or rejected.
\<close>

theorem single_flight:
  "(isExpandingRef s \<longrightarrow> toggleExpandSelected_begin fmt s = (s, None))
   \<and> (netIsExpandingRef t \<longrightarrow> toggleNetExpandSelected_begin fmt se pj t = (t, None))
   \<and> (toggleExpandSelected_begin fmt s = (s', Some p) \<longrightarrow> isExpandingRef s')
   \<and> (toggleNetExpandSelected_begin fmt se pj t = (t', Some p') \<longrightarrow> netIsExpandingRef t')
   \<and> \<not> isExpandingRef (toggleExpandSelected_settle target res s)
   \<and> \<not> netIsExpandingRef (toggleNetExpandSelected_settle pj target rid res' t)"
  using begin_guard[of s fmt] net_begin_guard[of t fmt se pj] begin_sets_flag[of fmt s s' p]
    net_begin_sets_flag[of fmt se pj t t' p'] settle_clears[of target res s]
    net_settle_clears[of pj target rid res' t]
  by blast


lemma first_begin:
  "snd (toggleExpandSelected_begin descFmt twoEntries) = Some (''n1:arg:0'', ''o1'')"
  by code_simp

lemma second_collapsed:
  "map_option (\<lambda>n. (expanded (flds n), loading (flds n), children n))
     (findNodeById (logTree (fst (toggleExpandSelected_begin descFmt twoEntries))) ''n2'')
   = Some (Some False, None, [])"
  by code_simp

theorem single_flight_witness:
  "snd (toggleExpandSelected_begin descFmt twoEntries) = Some (''n1:arg:0'', ''o1'')
   \<and> toggleExpandSelected_begin descFmt
        ((fst (toggleExpandSelected_begin descFmt twoEntries))\<lparr>selectedLogNodeId := Some ''n2''\<rparr>)
      = ((fst (toggleExpandSelected_begin descFmt twoEntries))\<lparr>selectedLogNodeId := Some ''n2''\<rparr>, None)
   \<and> map_option (\<lambda>n. (expanded (flds n), loading (flds n), children n))
        (findNodeById (logTree (fst (toggleExpandSelected_begin descFmt twoEntries))) ''n2'')
      = Some (Some False, None, [])"
proof -
  let ?s1 = "fst (toggleExpandSelected_begin descFmt twoEntries)"
  let ?s2 = "?s1\<lparr>selectedLogNodeId := Some ''n2''\<rparr>"
  have b: "toggleExpandSelected_begin descFmt twoEntries = (?s1, Some (''n1:arg:0'', ''o1''))"
    using first_begin by (cases "toggleExpandSelected_begin descFmt twoEntries") simp
  have flag: "isExpandingRef ?s1"
    using single_flight[of twoEntries descFmt initNetStore keepOrder "\<lambda>b. (b, False)" ?s1
        "(''n1:arg:0'', ''o1'')" initNetStore "(''x'', ''y'')" "''n1''" "Rejected ''e''" "''r''" "Rejected ''e''"] b
    by simp
  then have flag2: "isExpandingRef ?s2" by simp
  have drop: "toggleExpandSelected_begin descFmt ?s2 = (?s2, None)"
    using single_flight[of ?s2 descFmt initNetStore keepOrder "\<lambda>b. (b, False)" ?s2
        "(''n1:arg:0'', ''o1'')" initNetStore "(''x'', ''y'')" "''n1''" "Rejected ''e''" "''r''" "Rejected ''e''"] flag2
    by simp
  show ?thesis using first_begin drop second_collapsed by simp
qed

section \<open>Point mutation is path-local\<close>

lemma mapUpdateRef_absent:
  "i \<notin> set (ridsOf ns) \<Longrightarrow>
   fst (mapUpdateRef ns i u st h) = ns \<and> fst (snd (mapUpdateRef ns i u st h)) = False
   \<and> fst (snd (snd (mapUpdateRef ns i u st h))) = st"
proof (induction ns i u st h rule: mapUpdateRef.induct)
  case (1 i u st h)
  show ?case by simp
next
  case (2 a f ca cs ns i u st h)
  have nf: "nid f \<noteq> i" and ncs: "i \<notin> set (ridsOf cs)" and nns: "i \<notin> set (ridsOf ns)"
    using "2.prems" by auto
  show ?case
  proof (cases "length cs > 0")
    case True
    obtain cs' chc st1 h1 where c: "mapUpdateRef cs i u st (Suc h) = (cs', chc, st1, h1)"
      by (cases "mapUpdateRef cs i u st (Suc h)") auto
    have ihc: "cs' = cs \<and> chc = False \<and> st1 = st"
      using "2.IH"(2)[OF nf True ncs] c by simp
    obtain rest chr st2 h2 where r: "mapUpdateRef ns i u st1 h1 = (rest, chr, st2, h2)"
      by (cases "mapUpdateRef ns i u st1 h1") auto
    have nchc: "\<not> chc" using ihc by simp
    have ihr: "rest = ns \<and> chr = False \<and> st2 = st1"
      using "2.IH"(4)[OF nf True c[symmetric] refl refl nchc nns] r by simp
    show ?thesis using nf True c r ihc ihr by simp
  next
    case False
    obtain rest chr st2 h2 where r: "mapUpdateRef ns i u st h = (rest, chr, st2, h2)"
      by (cases "mapUpdateRef ns i u st h") auto
    have ihr: "rest = ns \<and> chr = False \<and> st2 = st"
      using "2.IH"(5)[OF nf False nns] r by simp
    show ?thesis using nf False r ihr by simp
  qed
qed


lemma mapUpdateRef_changed:
  "fst (snd (mapUpdateRef ns i u st h)) \<longleftrightarrow> i \<in> set (ridsOf ns)"
proof (induction ns i u st h rule: mapUpdateRef.induct)
  case (1 i u st h)
  show ?case by simp
next
  case (2 a f ca cs ns i u st h)
  show ?case
  proof (cases "nid f = i")
    case True
    then show ?thesis by (simp split: prod.splits)
  next
    case False
    note nf = False
    show ?thesis
    proof (cases "length cs > 0")
      case True
      obtain cs' chc st1 h1 where c: "mapUpdateRef cs i u st (Suc h) = (cs', chc, st1, h1)"
        by (cases "mapUpdateRef cs i u st (Suc h)") auto
      have ihc: "chc \<longleftrightarrow> i \<in> set (ridsOf cs)"
        using "2.IH"(2)[OF nf True] c by simp
      show ?thesis
      proof (cases chc)
        case True
        then show ?thesis using nf \<open>0 < length cs\<close> c ihc by (simp split: prod.splits)
      next
        case False
        obtain rest chr st2 h2 where r: "mapUpdateRef ns i u st1 h1 = (rest, chr, st2, h2)"
          by (cases "mapUpdateRef ns i u st1 h1") auto
        have ihr: "chr \<longleftrightarrow> i \<in> set (ridsOf ns)"
          using "2.IH"(4)[OF nf True c[symmetric] refl refl False] r by simp
        show ?thesis using nf True c r ihc ihr False by simp
      qed
    next
      case False
      obtain rest chr st2 h2 where r: "mapUpdateRef ns i u st h = (rest, chr, st2, h2)"
        by (cases "mapUpdateRef ns i u st h") auto
      have ihr: "chr \<longleftrightarrow> i \<in> set (ridsOf ns)"
        using "2.IH"(5)[OF nf False] r by simp
      show ?thesis using nf False r ihr by simp
    qed
  qed
qed

lemma mapUpdateRef_mono:
  "\<forall>n st k. k \<le> snd (snd (u n st k)) \<Longrightarrow> h \<le> snd (snd (snd (mapUpdateRef ns i u st h)))"
proof (induction ns i u st h rule: mapUpdateRef.induct)
  case (1 i u st h)
  show ?case by simp
next
  case (2 a f ca cs ns i u st h)
  note mono = "2.prems"
  show ?case
  proof (cases "nid f = i")
    case True
    obtain n' st1 h1 where un: "u (RefNode a f ca cs) st h = (n', st1, h1)"
      by (cases "u (RefNode a f ca cs) st h") auto
    have hh1: "h \<le> h1" using mono[rule_format, of h "RefNode a f ca cs" st] un by simp
    obtain rest chr st2 h2 where r: "mapUpdateRef ns i u st1 h1 = (rest, chr, st2, h2)"
      by (cases "mapUpdateRef ns i u st1 h1") auto
    have "h1 \<le> h2" using "2.IH"(1)[OF True un[symmetric] refl mono] r by simp
    then show ?thesis using True un r hh1 by simp
  next
    case False
    note nf = False
    show ?thesis
    proof (cases "length cs > 0")
      case True
      obtain cs' chc st1 h1 where c: "mapUpdateRef cs i u st (Suc h) = (cs', chc, st1, h1)"
        by (cases "mapUpdateRef cs i u st (Suc h)") auto
      have ihc: "Suc h \<le> h1" using "2.IH"(2)[OF nf True mono] c by simp
      show ?thesis
      proof (cases chc)
        case True
        obtain rest chr st2 h2 where r: "mapUpdateRef ns i u st1 (Suc h1) = (rest, chr, st2, h2)"
          by (cases "mapUpdateRef ns i u st1 (Suc h1)") auto
        have "Suc h1 \<le> h2"
          using "2.IH"(3)[OF nf \<open>0 < length cs\<close> c[symmetric] refl refl True mono] r by simp
        then show ?thesis using nf \<open>0 < length cs\<close> c r ihc True by simp
      next
        case False
        obtain rest chr st2 h2 where r: "mapUpdateRef ns i u st1 h1 = (rest, chr, st2, h2)"
          by (cases "mapUpdateRef ns i u st1 h1") auto
        have "h1 \<le> h2"
          using "2.IH"(4)[OF nf True c[symmetric] refl refl False mono] r by simp
        then show ?thesis using nf True c r ihc False by simp
      qed
    next
      case False
      obtain rest chr st2 h2 where r: "mapUpdateRef ns i u st h = (rest, chr, st2, h2)"
        by (cases "mapUpdateRef ns i u st h") auto
      have "h \<le> h2" using "2.IH"(5)[OF nf False mono] r by simp
      then show ?thesis using nf False r by simp
    qed
  qed
qed

lemma pathLocal_same: "i \<notin> set (ridsOf ns) \<Longrightarrow> pathLocal u h0 i ns ns"
  by (induction ns rule: ridsOf.induct) auto

lemma mapUpdateRef_pathLocal:
  "\<forall>n st k. k \<le> snd (snd (u n st k)) \<Longrightarrow> h0 \<le> h \<Longrightarrow>
   pathLocal u h0 i ns (fst (mapUpdateRef ns i u st h))"
proof (induction ns i u st h rule: mapUpdateRef.induct)
  case (1 i u st h)
  show ?case by simp
next
  case (2 a f ca cs ns i u st h)
  note mono = "2.prems"(1) and h0 = "2.prems"(2)
  show ?case
  proof (cases "nid f = i")
    case True
    obtain n' st1 h1 where un: "u (RefNode a f ca cs) st h = (n', st1, h1)"
      by (cases "u (RefNode a f ca cs) st h") auto
    have hh1: "h \<le> h1" using mono[rule_format, of h "RefNode a f ca cs" st] un by simp
    obtain rest chr st2 h2 where r: "mapUpdateRef ns i u st1 h1 = (rest, chr, st2, h2)"
      by (cases "mapUpdateRef ns i u st1 h1") auto
    have ih: "pathLocal u h0 i ns rest"
      using "2.IH"(1)[OF True un[symmetric] refl mono] h0 hh1 r by simp
    have ex: "\<exists>st' k. h0 \<le> k \<and> n' = fst (u (RefNode a f ca cs) st' k)"
      using un h0 by (intro exI[of _ st] exI[of _ h]) simp
    show ?thesis using True un r ih ex by simp
  next
    case False
    note nf = False
    show ?thesis
    proof (cases "length cs > 0")
      case True
      obtain cs' chc st1 h1 where c: "mapUpdateRef cs i u st (Suc h) = (cs', chc, st1, h1)"
        by (cases "mapUpdateRef cs i u st (Suc h)") auto
      have hh1: "Suc h \<le> h1" using mapUpdateRef_mono[OF mono, of "Suc h" cs i st] c by simp
      have ihc: "pathLocal u h0 i cs cs'" using "2.IH"(2)[OF nf True mono] h0 c by simp
      have chc: "chc \<longleftrightarrow> i \<in> set (ridsOf cs)" using mapUpdateRef_changed[of cs i u st "Suc h"] c by simp
      show ?thesis
      proof (cases chc)
        case True
        obtain rest chr st2 h2 where r: "mapUpdateRef ns i u st1 (Suc h1) = (rest, chr, st2, h2)"
          by (cases "mapUpdateRef ns i u st1 (Suc h1)") auto
        have ihr: "pathLocal u h0 i ns rest"
          using "2.IH"(3)[OF nf \<open>0 < length cs\<close> c[symmetric] refl refl True mono] h0 hh1 r by simp
        show ?thesis using nf \<open>0 < length cs\<close> c r ihc ihr True chc h0 hh1 by simp
      next
        case False
        obtain rest chr st2 h2 where r: "mapUpdateRef ns i u st1 h1 = (rest, chr, st2, h2)"
          by (cases "mapUpdateRef ns i u st1 h1") auto
        have ihr: "pathLocal u h0 i ns rest"
          using "2.IH"(4)[OF nf True c[symmetric] refl refl False mono] h0 hh1 r by simp
        show ?thesis using nf True c r ihr False chc by simp
      qed
    next
      case False
      then have ce: "cs = []" by simp
      obtain rest chr st2 h2 where r: "mapUpdateRef ns i u st h = (rest, chr, st2, h2)"
        by (cases "mapUpdateRef ns i u st h") auto
      have ihr: "pathLocal u h0 i ns rest" using "2.IH"(5)[OF nf False mono h0] r by simp
      show ?thesis using nf ce r ihr by simp
    qed
  qed
qed


lemma ridsOf_erase: "idsOf (map erase ns) = ridsOf ns"
  by (induction ns rule: ridsOf.induct) auto

lemma mapUpdateRef_erase:
  "\<forall>n st k. erase (fst (u n st k)) = fst (u0 (erase n) st) \<and> fst (snd (u n st k)) = snd (u0 (erase n) st) \<Longrightarrow>
   map erase (fst (mapUpdateRef ns i u st h)) = fst (mapUpdate (map erase ns) i u0 st)
   \<and> fst (snd (snd (mapUpdateRef ns i u st h))) = snd (snd (mapUpdate (map erase ns) i u0 st))"
proof (induction ns i u st h rule: mapUpdateRef.induct)
  case (1 i u st h)
  show ?case by simp
next
  case (2 a f ca cs ns i u st h)
  note sim = "2.prems"
  show ?case
  proof (cases "nid f = i")
    case True
    obtain n' st1 h1 where un: "u (RefNode a f ca cs) st h = (n', st1, h1)"
      by (cases "u (RefNode a f ca cs) st h") auto
    obtain m' where u0: "u0 (LogNode f (map erase cs)) st = (m', st1)" and m': "m' = erase n'"
      using sim[rule_format, of "RefNode a f ca cs" st h] un
      by (cases "u0 (LogNode f (map erase cs)) st") auto
    obtain rest chr st2 h2 where r: "mapUpdateRef ns i u st1 h1 = (rest, chr, st2, h2)"
      by (cases "mapUpdateRef ns i u st1 h1") auto
    obtain rest0 chr0 st20 where r0: "mapUpdate (map erase ns) i u0 st1 = (rest0, chr0, st20)"
      by (cases "mapUpdate (map erase ns) i u0 st1") auto
    have ih: "map erase rest = rest0 \<and> st2 = st20"
      using "2.IH"(1)[OF True un[symmetric] refl sim] r r0 by simp
    show ?thesis using True un u0 m' r r0 ih by simp
  next
    case False
    note nf = False
    show ?thesis
    proof (cases "length cs > 0")
      case True
      obtain cs' chc st1 h1 where c: "mapUpdateRef cs i u st (Suc h) = (cs', chc, st1, h1)"
        by (cases "mapUpdateRef cs i u st (Suc h)") auto
      obtain cs0 chc0 st10 where c0: "mapUpdate (map erase cs) i u0 st = (cs0, chc0, st10)"
        by (cases "mapUpdate (map erase cs) i u0 st") auto
      have ihc: "map erase cs' = cs0 \<and> st1 = st10"
        using "2.IH"(2)[OF nf True sim] c c0 by simp
      have chc: "chc \<longleftrightarrow> i \<in> set (ridsOf cs)" using mapUpdateRef_changed[of cs i u st "Suc h"] c by simp
      have chc0: "chc0 \<longleftrightarrow> i \<in> set (ridsOf cs)"
        using mapUpdate_changed[of "map erase cs" i u0 st] c0 by (simp add: ridsOf_erase)
      show ?thesis
      proof (cases chc)
        case True
        obtain rest chr st2 h2 where r: "mapUpdateRef ns i u st1 (Suc h1) = (rest, chr, st2, h2)"
          by (cases "mapUpdateRef ns i u st1 (Suc h1)") auto
        obtain rest0 chr0 st20 where r0: "mapUpdate (map erase ns) i u0 st1 = (rest0, chr0, st20)"
          by (cases "mapUpdate (map erase ns) i u0 st1") auto
        have ihr: "map erase rest = rest0 \<and> st2 = st20"
          using "2.IH"(3)[OF nf \<open>0 < length cs\<close> c[symmetric] refl refl True sim] r r0 by simp
        show ?thesis using nf \<open>0 < length cs\<close> c c0 r r0 ihc ihr True chc chc0 by simp
      next
        case False
        obtain rest chr st2 h2 where r: "mapUpdateRef ns i u st1 h1 = (rest, chr, st2, h2)"
          by (cases "mapUpdateRef ns i u st1 h1") auto
        obtain rest0 chr0 st20 where r0: "mapUpdate (map erase ns) i u0 st1 = (rest0, chr0, st20)"
          by (cases "mapUpdate (map erase ns) i u0 st1") auto
        have ihr: "map erase rest = rest0 \<and> st2 = st20"
          using "2.IH"(4)[OF nf True c[symmetric] refl refl False sim] r r0 by simp
        show ?thesis using nf True c c0 r r0 ihc ihr False chc chc0 by simp
      qed
    next
      case False
      then have ce: "cs = []" by simp
      obtain rest chr st2 h2 where r: "mapUpdateRef ns i u st h = (rest, chr, st2, h2)"
        by (cases "mapUpdateRef ns i u st h") auto
      obtain rest0 chr0 st20 where r0: "mapUpdate (map erase ns) i u0 st = (rest0, chr0, st20)"
        by (cases "mapUpdate (map erase ns) i u0 st") auto
      have ihr: "map erase rest = rest0 \<and> st2 = st20"
        using "2.IH"(5)[OF nf False sim] r r0 by simp
      show ?thesis using nf ce r r0 ihr by simp
    qed
  qed
qed

text \<open>
  C7.  Let the forest be the array at \<open>arr\<close> with the elements \<open>elems\<close>, let \<open>h\<close> be the next
  free address, above \<open>arr\<close>, and let the updater never move the allocation pointer back.
  If no node has the id, \<open>updateNodeById\<close> returns the very array it was given, with its
  elements, and the updater's state is untouched.  If a node has the id, it returns a new
  array (at \<open>h\<close>), and the new forest is path-local: a node with the id is replaced by the
  updater's result, a node above one is a new object with the same fields and a new
  \<open>children\<close> array that is path-local again, and every other node, with its whole subtree,
  is the identical object.  (With several nodes of the same id, each one that has no
  ancestor with the id is replaced.)  Forgetting the addresses gives the result of
  \<open>updateNodeById\<close> on the forest without addresses.
\<close>

theorem updateNodeById_path_local:
  assumes mono: "\<forall>n st k. k \<le> snd (snd (u n st k))"
      and below: "arr < h"
  shows "case updateNodeByIdRef (arr, elems) i u st h of
           ((arr', elems'), st', h') \<Rightarrow>
             (if i \<in> set (ridsOf elems)
              then arr' = h \<and> arr' \<noteq> arr \<and> pathLocal u h i elems elems'
              else arr' = arr \<and> elems' = elems \<and> st' = st)
             \<and> ((\<forall>n st k. erase (fst (u n st k)) = fst (u0 (erase n) st)
                           \<and> fst (snd (u n st k)) = snd (u0 (erase n) st))
                  \<longrightarrow> (map erase elems', st') = updateNodeById (map erase elems) i u0 st)"
proof -
  obtain nx ch st' h' where m: "mapUpdateRef elems i u st (Suc h) = (nx, ch, st', h')"
    by (cases "mapUpdateRef elems i u st (Suc h)") auto
  have ch: "ch \<longleftrightarrow> i \<in> set (ridsOf elems)"
    using mapUpdateRef_changed[of elems i u st "Suc h"] m by simp
  have pl: "pathLocal u h i elems nx"
    using mapUpdateRef_pathLocal[OF mono, of h "Suc h" i elems st] m by simp
  have ab: "i \<notin> set (ridsOf elems) \<Longrightarrow> nx = elems \<and> st' = st"
    using mapUpdateRef_absent[of i elems u st "Suc h"] m by simp
  have er: "(\<forall>n st k. erase (fst (u n st k)) = fst (u0 (erase n) st)
                           \<and> fst (snd (u n st k)) = snd (u0 (erase n) st))
           \<Longrightarrow> (map erase nx, st') = updateNodeById (map erase elems) i u0 st"
    using mapUpdateRef_erase[of u u0 elems i st "Suc h"] m
    by (simp add: updateNodeById_mapUpdate)
  show ?thesis
    using m ch pl ab er below by (auto simp: updateNodeByIdRef_def)
qed


lemma ref_found:
  "updateNodeByIdRef (0, refForest) ''b'' expandRef () 9 =
     ((9, [RefNode 12 (mkFields ''a'' KEntry) 10
             [RefNode 11 ((mkFields ''b'' KArg)\<lparr>expanded := Some True\<rparr>) 4 [],
              RefNode 5 (mkFields ''c'' KArg) 6 []],
           RefNode 7 (mkFields ''d'' KText) 8 []]), (), 13)"
  by code_simp

lemma ref_absent:
  "updateNodeByIdRef (0, refForest) ''zz'' expandRef () 9 = ((0, refForest), (), 11)"
  by code_simp

lemma ref_ids: "ridsOf refForest = [''a'', ''b'', ''c'', ''d'']"
  by (simp add: refForest_def mkFields_def)

theorem updateNodeById_path_local_witness:
  "updateNodeByIdRef (0, refForest) ''b'' expandRef () 9 =
     ((9, [RefNode 12 (mkFields ''a'' KEntry) 10
             [RefNode 11 ((mkFields ''b'' KArg)\<lparr>expanded := Some True\<rparr>) 4 [],
              RefNode 5 (mkFields ''c'' KArg) 6 []],
           RefNode 7 (mkFields ''d'' KText) 8 []]), (), 13)
   \<and> pathLocal expandRef 9 ''b'' refForest
        [RefNode 12 (mkFields ''a'' KEntry) 10
             [RefNode 11 ((mkFields ''b'' KArg)\<lparr>expanded := Some True\<rparr>) 4 [],
              RefNode 5 (mkFields ''c'' KArg) 6 []],
           RefNode 7 (mkFields ''d'' KText) 8 []]
   \<and> fst (updateNodeByIdRef (0, refForest) ''zz'' expandRef () 9) = (0, refForest)"
proof -
  have mono: "\<forall>n st k. k \<le> snd (snd (expandRef n st k))" by (simp add: expandRef_def)
  have below: "(0::nat) < 9" by simp
  have inb: "''b'' \<in> set (ridsOf refForest)" by (simp add: ref_ids)
  have notz: "''zz'' \<notin> set (ridsOf refForest)" by (simp add: ref_ids)
  have p: "pathLocal expandRef 9 ''b'' refForest
        [RefNode 12 (mkFields ''a'' KEntry) 10
             [RefNode 11 ((mkFields ''b'' KArg)\<lparr>expanded := Some True\<rparr>) 4 [],
              RefNode 5 (mkFields ''c'' KArg) 6 []],
           RefNode 7 (mkFields ''d'' KText) 8 []]"
    using updateNodeById_path_local[OF mono below, where elems = refForest and i = "''b''" and st = "()"
        and ?u0.0 = "pureUpd id"] inb
    unfolding ref_found by simp
  have z: "fst (updateNodeByIdRef (0, refForest) ''zz'' expandRef () 9) = (0, refForest)"
    using updateNodeById_path_local[OF mono below, where elems = refForest and i = "''zz''" and st = "()"
        and ?u0.0 = "pureUpd id"] notz
    by (simp split: prod.splits)
  show ?thesis using ref_found p z by simp
qed

section \<open>A failed fetch\<close>
















section \<open>Expanding, collapsing and expanding again\<close>

lemma flatten_Nil_iff: "flattenLogTree fmt ns p d = [] \<longleftrightarrow> ns = []"
  by (cases ns rule: idsOf.cases) auto

lemma logRootMatches_key:
  assumes "rootKey a = rootKey b"
  shows "logRootMatches fmt q a = logRootMatches fmt q b"
proof -
  have "kind (flds a) = kind (flds b)" "label (flds a) = label (flds b)"
    "ntext (flds a) = ntext (flds b)" "args (flds a) = args (flds b)"
    using assms by (simp_all add: rootKey_def)
  then show ?thesis unfolding logRootMatches_def Let_def by (simp only:)
qed

lemma netRootMatches_key:
  assumes "rootKey a = rootKey b"
  shows "netRootMatches q a = netRootMatches q b"
proof -
  have "label (flds a) = label (flds b)" "ntext (flds a) = ntext (flds b)"
    using assms by (simp_all add: rootKey_def)
  then show ?thesis unfolding netRootMatches_def Let_def by (simp only:)
qed

lemma filter_Nil_key:
  "map k xs = map k ys \<Longrightarrow> (\<And>a b. k a = k b \<Longrightarrow> P a = P b) \<Longrightarrow>
   filter P xs = [] \<longleftrightarrow> filter P ys = []"
proof (induction xs arbitrary: ys)
  case Nil
  from Nil.prems(1) show ?case by simp
next
  case (Cons x xs)
  from Cons.prems(1) obtain y ys' where ys: "ys = y # ys'" by (cases ys) auto
  have kx: "k x = k y" and km: "map k xs = map k ys'" using Cons.prems(1) ys by auto
  have px: "P x = P y" using Cons.prems(2)[OF kx] .
  have ih: "filter P xs = [] \<longleftrightarrow> filter P ys' = []" by (rule Cons.IH[OF km]) (rule Cons.prems(2))
  show ?case unfolding ys using px ih by simp
qed

lemma mapUpdate_rootKey:
  "(\<And>m c. rootKey (fst (u m c)) = rootKey m) \<Longrightarrow>
   map rootKey (fst (mapUpdate ns i u st)) = map rootKey ns"
proof (induction ns i u st rule: mapUpdate.induct)
  case (1 i u st)
  show ?case by simp
next
  case (2 f cs ns i u st)
  note k = "2.prems"
  show ?case
  proof (cases "nid f = i")
    case True
    obtain n' st1 where un: "u (LogNode f cs) st = (n', st1)" by (cases "u (LogNode f cs) st") auto
    have kn: "rootKey n' = rootKey (LogNode f cs)" using k[of "LogNode f cs" st] un by simp
    obtain rest chr st2 where r: "mapUpdate ns i u st1 = (rest, chr, st2)"
      by (cases "mapUpdate ns i u st1") auto
    have "map rootKey rest = map rootKey ns" using "2.IH"(1)[OF True un[symmetric] k] r by simp
    then show ?thesis using True un r kn by simp
  next
    case False
    note nf = False
    show ?thesis
    proof (cases "length cs > 0")
      case True
      obtain cs' chc st1 where c: "mapUpdate cs i u st = (cs', chc, st1)"
        by (cases "mapUpdate cs i u st") auto
      obtain rest chr st2 where r: "mapUpdate ns i u st1 = (rest, chr, st2)"
        by (cases "mapUpdate ns i u st1") auto
      have "map rootKey rest = map rootKey ns"
        using "2.IH"(3)[OF nf True c[symmetric] refl k] r by simp
      then show ?thesis using nf True c r by (cases chc) (simp_all add: rootKey_def[abs_def])
    next
      case False
      obtain rest chr st2 where r: "mapUpdate ns i u st = (rest, chr, st2)"
        by (cases "mapUpdate ns i u st") auto
      have "map rootKey rest = map rootKey ns" using "2.IH"(4)[OF nf False k] r by simp
      then show ?thesis using nf False r by simp
    qed
  qed
qed

lemma setLogTreeUpdate_flat_empty:
  assumes k: "\<And>m c. rootKey (fst (u m c)) = rootKey m"
  shows "flatLogs fmt (setLogTreeUpdate i u s) = [] \<longleftrightarrow> flatLogs fmt s = []"
proof -
  have t: "logTree (setLogTreeUpdate i u s) = fst (mapUpdate (logTree s) i u (nextNodeIdRef s))"
    by (simp add: setLogTreeUpdate_def updateNodeById_mapUpdate)
  have q: "logSearchQuery (setLogTreeUpdate i u s) = logSearchQuery s"
    by (simp add: setLogTreeUpdate_def split: prod.splits)
  have m: "map rootKey (logTree (setLogTreeUpdate i u s)) = map rootKey (logTree s)"
    unfolding t by (rule mapUpdate_rootKey) (rule k)
  have len: "length (logTree (setLogTreeUpdate i u s)) = length (logTree s)"
    using arg_cong[OF m, of length] by simp
  have mt: "logTree (setLogTreeUpdate i u s) = [] \<longleftrightarrow> logTree s = []"
    by (simp only: length_0_conv[symmetric] len)
  have fl: "filter (logRootMatches fmt q) (logTree (setLogTreeUpdate i u s)) = []
            \<longleftrightarrow> filter (logRootMatches fmt q) (logTree s) = []" for q
    by (rule filter_Nil_key[OF m]) (rule logRootMatches_key)
  show ?thesis
  proof (cases "toLowerCase (trim (logSearchQuery s)) = []")
    case True
    then show ?thesis
      unfolding flatLogs_def flatten_Nil_iff filteredLogTree_def Let_def q using mt by simp
  next
    case False
    then show ?thesis
      unfolding flatLogs_def flatten_Nil_iff filteredLogTree_def Let_def q using fl by simp
  qed
qed

lemma setLogTreeUpdate_cells [simp]:
  "selectedLogNodeId (setLogTreeUpdate i u s) = selectedLogNodeId s"
  "logSearchQuery (setLogTreeUpdate i u s) = logSearchQuery s"
  "followTail (setLogTreeUpdate i u s) = followTail s"
  by (simp_all add: setLogTreeUpdate_def split: prod.splits)

lemma find_setLogTreeUpdate:
  "findNodeById (logTree s) i = Some n \<Longrightarrow> nid (flds (fst (u n (nextNodeIdRef s)))) = i \<Longrightarrow>
   findNodeById (logTree (setLogTreeUpdate i u s)) i = Some (fst (u n (nextNodeIdRef s)))"
  using find_mapUpdate_first[of "logTree s" i n u "nextNodeIdRef s"]
  by (simp add: setLogTreeUpdate_def updateNodeById_mapUpdate)

lemma counter_setLogTreeUpdate_pure [simp]:
  "nextNodeIdRef (setLogTreeUpdate i (pureUpd g) s) = nextNodeIdRef s"
  by (simp add: setLogTreeUpdate_def updateNodeById_pure)

lemma expandable_value:
  "kind (flds n) \<noteq> KEntry \<Longrightarrow> nodeExpandable n \<Longrightarrow>
   isObjectExpandable (if kind (flds n) = KArg then object (flds n) else pvalue (flds n))
   \<and> (\<exists>oid. valueOid n = Some oid)"
  by (auto simp: nodeExpandable_def Let_def valueOid_def isObjectExpandable_def
      split: if_splits option.splits)

lemma begin_value:
  assumes v: "valueNodeAt fmt s i n"
  shows "toggleExpandSelected_begin fmt s =
     (let nextExpanded = (expanded (flds n) \<noteq> Some True);
          s1 = setLogTreeUpdate i (pureUpd (setExpanded nextExpanded)) s
      in if \<not> nextExpanded then (s1, None)
         else if length (children n) > 0 \<and> loading (flds n) \<noteq> Some True then (s1, None)
         else (setLogTreeUpdate i loadingUpdater (s1\<lparr>isExpandingRef := True\<rparr>),
               Some (i, the (valueOid n))))"
proof -
  have a: "\<not> isExpandingRef s" "flatLogs fmt s \<noteq> []" "selectedLogNodeId s = Some i" "i \<noteq> []"
    "findNodeById (logTree s) i = Some n" "kind (flds n) \<noteq> KEntry" "nodeExpandable n"
    using v by (simp_all add: valueNodeAt_def)
  obtain oid where oid: "valueOid n = Some oid"
    and ex: "isObjectExpandable (if kind (flds n) = KArg then object (flds n) else pvalue (flds n))"
    using expandable_value[OF a(6) a(7)] by blast
  show ?thesis
    unfolding toggleExpandSelected_begin_def
    using a oid ex by (simp add: Let_def valueOid_def)
qed

lemma rootKey_setExpanded [simp]: "rootKey (setExpanded e m) = rootKey m"
  by (simp add: rootKey_def setExpanded_def)

lemma flat_flag [simp]: "flatLogs fmt (s\<lparr>isExpandingRef := b\<rparr>) = flatLogs fmt s"
  by (simp add: flatLogs_def filteredLogTree_def Let_def)

lemma valueNodeAt_id: "valueNodeAt fmt s i n \<Longrightarrow> nid (flds n) = i"
  unfolding valueNodeAt_def using find_Some_id by blast

lemma valueNodeAt_update:
  assumes v: "valueNodeAt fmt s i n"
      and k: "\<And>m c. rootKey (fst (u m c)) = rootKey m"
      and n': "fst (u n (nextNodeIdRef s)) = n'"
      and f: "nid (flds n') = i" "kind (flds n') = kind (flds n)" "object (flds n') = object (flds n)"
             "pvalue (flds n') = pvalue (flds n)"
  shows "valueNodeAt fmt (setLogTreeUpdate i u s) i n'"
proof -
  have a: "\<not> isExpandingRef s" "flatLogs fmt s \<noteq> []" "selectedLogNodeId s = Some i" "i \<noteq> []"
    "findNodeById (logTree s) i = Some n" "kind (flds n) \<noteq> KEntry" "nodeExpandable n"
    using v by (simp_all add: valueNodeAt_def)
  have fl: "flatLogs fmt (setLogTreeUpdate i u s) \<noteq> []"
    using setLogTreeUpdate_flat_empty[of u fmt i s, OF k] a(2) by simp
  have fi: "findNodeById (logTree (setLogTreeUpdate i u s)) i = Some n'"
    using find_setLogTreeUpdate[OF a(5), of u] n' f(1) by simp
  have ne: "nodeExpandable n'" using a(6) a(7) f
    by (auto simp add: nodeExpandable_def Let_def split: if_splits)
  show ?thesis using a fl fi ne f by (simp add: valueNodeAt_def)
qed

lemma valueNodeAt_flag:
  "valueNodeAt fmt (s\<lparr>isExpandingRef := False\<rparr>) i n \<longleftrightarrow>
   flatLogs fmt s \<noteq> [] \<and> selectedLogNodeId s = Some i \<and> i \<noteq> []
     \<and> findNodeById (logTree s) i = Some n \<and> kind (flds n) \<noteq> KEntry \<and> nodeExpandable n"
  by (simp add: valueNodeAt_def)

lemma toggle_flip:
  assumes v: "valueNodeAt fmt s i n"
      and c: "expanded (flds n) = Some True
              \<or> (length (children n) > 0 \<and> loading (flds n) \<noteq> Some True)"
  shows "toggleExpandSelected fmt gp s
           = (setLogTreeUpdate i (pureUpd (setExpanded (expanded (flds n) \<noteq> Some True))) s, 0)
       \<and> valueNodeAt fmt (setLogTreeUpdate i (pureUpd (setExpanded (expanded (flds n) \<noteq> Some True))) s)
            i (setExpanded (expanded (flds n) \<noteq> Some True) n)"
proof -
  let ?e = "expanded (flds n) \<noteq> Some True"
  have b: "toggleExpandSelected_begin fmt s = (setLogTreeUpdate i (pureUpd (setExpanded ?e)) s, None)"
    unfolding begin_value[OF v] Let_def using c by auto
  have idn: "nid (flds n) = i" using v by (rule valueNodeAt_id)
  have v': "valueNodeAt fmt (setLogTreeUpdate i (pureUpd (setExpanded ?e)) s) i (setExpanded ?e n)"
    by (rule valueNodeAt_update[OF v]) (simp_all add: pureUpd_def setExpanded_def idn rootKey_def)
  show ?thesis using b v' by (simp add: toggleExpandSelected_def)
qed

lemma toggle_fetch:
  assumes v: "valueNodeAt fmt s i n"
      and c: "expanded (flds n) \<noteq> Some True" "children n = [] \<or> loading (flds n) = Some True"
      and oid: "valueOid n = Some oid"
  shows "\<exists>s' n'. toggleExpandSelected fmt gp s = (s', 1) \<and> valueNodeAt fmt s' i n'
           \<and> flds n' = (flds n)\<lparr>expanded := Some True, loading := Some False\<rparr>
           \<and> (case gp oid of
                 Fulfilled cs \<Rightarrow> children n' = cs
               | Rejected e \<Rightarrow> (\<exists>mid. children n' = [metaNode mid (''[props] ! '' @ e)]))"
proof -
  let ?s1 = "setLogTreeUpdate i (pureUpd (setExpanded True)) s"
  let ?sB = "setLogTreeUpdate i loadingUpdater (?s1\<lparr>isExpandingRef := True\<rparr>)"
  have idn: "nid (flds n) = i" using v by (rule valueNodeAt_id)
  have b: "toggleExpandSelected_begin fmt s = (?sB, Some (i, oid))"
    unfolding begin_value[OF v] Let_def using c oid by auto
  have v1: "valueNodeAt fmt ?s1 i (setExpanded True n)"
    by (rule valueNodeAt_update[OF v]) (simp_all add: pureUpd_def setExpanded_def idn rootKey_def)
  have v1': "valueNodeAt fmt (?s1\<lparr>isExpandingRef := False\<rparr>) i (setExpanded True n)"
    using v1 by (simp add: valueNodeAt_def)
  define nL where "nL = fst (loadingUpdater (setExpanded True n) (nextNodeIdRef (?s1\<lparr>isExpandingRef := False\<rparr>)))"
  have fL: "flds nL = (flds n)\<lparr>expanded := Some True, loading := Some True\<rparr>"
    by (simp add: nL_def loadingUpdater_def setExpanded_def)
  have vB0: "valueNodeAt fmt (setLogTreeUpdate i loadingUpdater (?s1\<lparr>isExpandingRef := False\<rparr>)) i nL"
    by (rule valueNodeAt_update[OF v1']) (simp_all add: nL_def loadingUpdater_def setExpanded_def idn rootKey_def)
  have sBrel: "?sB = (setLogTreeUpdate i loadingUpdater (?s1\<lparr>isExpandingRef := False\<rparr>))\<lparr>isExpandingRef := True\<rparr>"
    by (simp add: setLogTreeUpdate_def split: prod.splits)
  have findB: "findNodeById (logTree ?sB) i = Some nL"
    and flatB: "flatLogs fmt ?sB \<noteq> []" and selB: "selectedLogNodeId ?sB = Some i"
    using vB0 unfolding sBrel by (simp_all add: valueNodeAt_def)
  have ine: "i \<noteq> []" using v by (simp add: valueNodeAt_def)
  have kn: "kind (flds n) \<noteq> KEntry" and ne: "nodeExpandable n" using v by (simp_all add: valueNodeAt_def)
  have vBF: "valueNodeAt fmt (?sB\<lparr>isExpandingRef := False\<rparr>) i nL"
    using vB0 unfolding sBrel by (simp add: valueNodeAt_def)
  show ?thesis
  proof (cases "gp oid")
    case (Fulfilled cs)
    let ?u = "pureUpd (\<lambda>m. LogNode ((flds m)\<lparr>loading := Some False\<rparr>) cs) :: LogNode \<Rightarrow> nat \<Rightarrow> LogNode \<times> nat"
    let ?n' = "LogNode ((flds nL)\<lparr>loading := Some False\<rparr>) cs"
    have st: "toggleExpandSelected_settle i (Fulfilled cs) ?sB
                = (setLogTreeUpdate i ?u ?sB)\<lparr>isExpandingRef := False\<rparr>"
      by (simp add: toggleExpandSelected_settle_def)
    have eq: "(setLogTreeUpdate i ?u ?sB)\<lparr>isExpandingRef := False\<rparr>
                = setLogTreeUpdate i ?u (?sB\<lparr>isExpandingRef := False\<rparr>)"
      by (simp add: setLogTreeUpdate_def split: prod.splits)
    have v': "valueNodeAt fmt (setLogTreeUpdate i ?u (?sB\<lparr>isExpandingRef := False\<rparr>)) i ?n'"
      by (rule valueNodeAt_update[OF vBF]) (simp_all add: pureUpd_def fL idn rootKey_def)
    have "toggleExpandSelected fmt gp s = (setLogTreeUpdate i ?u (?sB\<lparr>isExpandingRef := False\<rparr>), 1)"
      using b Fulfilled st eq by (simp add: toggleExpandSelected_def)
    moreover have "flds ?n' = (flds n)\<lparr>expanded := Some True, loading := Some False\<rparr>"
      by (simp add: fL)
    ultimately show ?thesis using v' Fulfilled by (intro exI[of _ "setLogTreeUpdate i ?u (?sB\<lparr>isExpandingRef := False\<rparr>)"] exI[of _ ?n']) simp
  next
    case (Rejected e)
    let ?u = "\<lambda>m c. (LogNode ((flds m)\<lparr>loading := Some False\<rparr>)
                        [metaNode (nodeIdOfCounter (Suc c)) (''[props] ! '' @ e)], Suc c)"
    let ?c = "nextNodeIdRef (?sB\<lparr>isExpandingRef := False\<rparr>)"
    let ?n' = "LogNode ((flds nL)\<lparr>loading := Some False\<rparr>)
                 [metaNode (nodeIdOfCounter (Suc ?c)) (''[props] ! '' @ e)]"
    have st: "toggleExpandSelected_settle i (Rejected e) ?sB
                = (setLogTreeUpdate i ?u ?sB)\<lparr>isExpandingRef := False\<rparr>"
      by (simp add: toggleExpandSelected_settle_def)
    have eq: "(setLogTreeUpdate i ?u ?sB)\<lparr>isExpandingRef := False\<rparr>
                = setLogTreeUpdate i ?u (?sB\<lparr>isExpandingRef := False\<rparr>)"
      by (simp add: setLogTreeUpdate_def split: prod.splits)
    have v': "valueNodeAt fmt (setLogTreeUpdate i ?u (?sB\<lparr>isExpandingRef := False\<rparr>)) i ?n'"
      by (rule valueNodeAt_update[OF vBF]) (simp_all add: fL idn rootKey_def)
    have "toggleExpandSelected fmt gp s = (setLogTreeUpdate i ?u (?sB\<lparr>isExpandingRef := False\<rparr>), 1)"
      using b Rejected st eq by (simp add: toggleExpandSelected_def)
    moreover have "flds ?n' = (flds n)\<lparr>expanded := Some True, loading := Some False\<rparr>"
      by (simp add: fL)
    moreover have "\<exists>mid. children ?n' = [metaNode mid (''[props] ! '' @ e)]"
      by (rule exI[of _ "nodeIdOfCounter (Suc ?c)"]) simp
    ultimately show ?thesis using v' Rejected
      by (intro exI[of _ "setLogTreeUpdate i ?u (?sB\<lparr>isExpandingRef := False\<rparr>)"] exI[of _ ?n']) simp
  qed
qed

lemma pressZ_3:
  "pressZ fmt gp 3 (s, 0) =
     (case toggleExpandSelected fmt gp s of (s1, j1) \<Rightarrow>
      case toggleExpandSelected fmt gp s1 of (s2, j2) \<Rightarrow>
      case toggleExpandSelected fmt gp s2 of (s3, j3) \<Rightarrow> (s3, j1 + j2 + j3))"
  by (simp add: numeral_3_eq_3 split: prod.splits)

lemma round_trip_core:
  assumes v: "valueNodeAt fmt s i n"
      and c: "expanded (flds n) \<noteq> Some True" "children n = []"
      and oid: "valueOid n = Some oid"
      and g: "gp oid \<noteq> Fulfilled []"
  shows "\<exists>s' n'. pressZ fmt gp 3 (s, 0) = (s', 1) \<and> valueNodeAt fmt s' i n'
           \<and> expanded (flds n') = Some True
           \<and> (case gp oid of
                 Fulfilled cs \<Rightarrow> children n' = cs
               | Rejected e \<Rightarrow> (\<exists>mid. children n' = [metaNode mid (''[props] ! '' @ e)]))"
proof -
  from toggle_fetch[OF v c(1) disjI1[OF c(2)] oid, of gp]
  obtain s1 n1 where t1: "toggleExpandSelected fmt gp s = (s1, 1)"
    and v1: "valueNodeAt fmt s1 i n1"
    and f1: "flds n1 = (flds n)\<lparr>expanded := Some True, loading := Some False\<rparr>"
    and ch1: "(case gp oid of Fulfilled cs \<Rightarrow> children n1 = cs
               | Rejected e \<Rightarrow> (\<exists>mid. children n1 = [metaNode mid (''[props] ! '' @ e)]))"
    by blast
  have ne1: "length (children n1) > 0" using ch1 g by (cases "gp oid") auto
  have e1: "expanded (flds n1) = Some True" by (simp add: f1)
  let ?s2 = "setLogTreeUpdate i (pureUpd (setExpanded False)) s1"
  let ?n2 = "setExpanded False n1"
  from toggle_flip[OF v1 disjI1[OF e1], of gp]
  have t2: "toggleExpandSelected fmt gp s1 = (?s2, 0)" and v2: "valueNodeAt fmt ?s2 i ?n2"
    by (simp_all add: e1)
  have e2: "expanded (flds ?n2) \<noteq> Some True" by (simp add: setExpanded_def)
  have c2: "length (children ?n2) > 0 \<and> loading (flds ?n2) \<noteq> Some True"
    using ne1 by (simp add: setExpanded_def f1)
  let ?s3 = "setLogTreeUpdate i (pureUpd (setExpanded True)) ?s2"
  let ?n3 = "setExpanded True ?n2"
  from toggle_flip[OF v2 disjI2[OF c2], of gp]
  have t3: "toggleExpandSelected fmt gp ?s2 = (?s3, 0)" and v3: "valueNodeAt fmt ?s3 i ?n3"
    using e2 by simp_all
  have p: "pressZ fmt gp 3 (s, 0) = (?s3, 1)" unfolding pressZ_3 by (simp add: t1 t2 t3)
  have e3: "expanded (flds ?n3) = Some True" by (simp add: setExpanded_def)
  have ch3: "children ?n3 = children n1" by (simp add: setExpanded_def)
  show ?thesis
    by (intro exI[of _ ?s3] exI[of _ ?n3] conjI p v3 e3) (use ch1 ch3 in \<open>simp split: fetched.splits\<close>)
qed

lemma wit_pre: "valueNodeAt descFmt argOfPair ''n1:arg:0'' (LogNode ((mkFields ''n1:arg:0'' KArg)\<lparr>object := Some (remoteObj ''o1''), expanded := Some False\<rparr>) [])"
  by code_simp

lemma setNetTreeUpdate_cells [simp]:
  "selectedNetNodeId (setNetTreeUpdate i u s) = selectedNetNodeId s"
  "netSearchQuery (setNetTreeUpdate i u s) = netSearchQuery s"
  "netByIdRef (setNetTreeUpdate i u s) = netByIdRef s"
  by (simp_all add: setNetTreeUpdate_def split: prod.splits)

lemma find_setNetTreeUpdate:
  "findNodeById (netTree s) i = Some n \<Longrightarrow> nid (flds (fst (u n (netNextNodeIdRef s)))) = i \<Longrightarrow>
   findNodeById (netTree (setNetTreeUpdate i u s)) i = Some (fst (u n (netNextNodeIdRef s)))"
  using find_mapUpdate_first[of "netTree s" i n u "netNextNodeIdRef s"]
  by (simp add: setNetTreeUpdate_def updateNodeById_mapUpdate)

lemma setNetTreeUpdate_flat_empty:
  assumes k: "\<And>m c. rootKey (fst (u m c)) = rootKey m"
  shows "flatNet fmt (setNetTreeUpdate i u s) = [] \<longleftrightarrow> flatNet fmt s = []"
proof -
  have t: "netTree (setNetTreeUpdate i u s) = fst (mapUpdate (netTree s) i u (netNextNodeIdRef s))"
    by (simp add: setNetTreeUpdate_def updateNodeById_mapUpdate)
  have q: "netSearchQuery (setNetTreeUpdate i u s) = netSearchQuery s" by simp
  have m: "map rootKey (netTree (setNetTreeUpdate i u s)) = map rootKey (netTree s)"
    unfolding t by (rule mapUpdate_rootKey) (rule k)
  have len: "length (netTree (setNetTreeUpdate i u s)) = length (netTree s)"
    using arg_cong[OF m, of length] by simp
  have mt: "netTree (setNetTreeUpdate i u s) = [] \<longleftrightarrow> netTree s = []"
    by (simp only: length_0_conv[symmetric] len)
  have fl: "filter (netRootMatches q) (netTree (setNetTreeUpdate i u s)) = []
            \<longleftrightarrow> filter (netRootMatches q) (netTree s) = []" for q
    by (rule filter_Nil_key[OF m]) (rule netRootMatches_key)
  show ?thesis
  proof (cases "toLowerCase (trim (netSearchQuery s)) = []")
    case True
    then show ?thesis
      unfolding flatNet_def flatten_Nil_iff filteredNetTree_def Let_def q using mt by simp
  next
    case False
    then show ?thesis
      unfolding flatNet_def flatten_Nil_iff filteredNetTree_def Let_def q using fl by simp
  qed
qed

lemma flatNet_cells [simp]:
  "flatNet fmt (s\<lparr>netIsExpandingRef := b\<rparr>) = flatNet fmt s"
  "flatNet fmt (s\<lparr>netNextNodeIdRef := c\<rparr>) = flatNet fmt s"
  "flatNet fmt (s\<lparr>netByIdRef := m\<rparr>) = flatNet fmt s"
  by (simp_all add: flatNet_def filteredNetTree_def Let_def)

lemma bodyNodeAt_id: "bodyNodeAt fmt s i n \<Longrightarrow> nid (flds n) = i"
  unfolding bodyNodeAt_def using find_Some_id by blast

lemma bodyNodeAt_update:
  assumes v: "bodyNodeAt fmt s i n"
      and k: "\<And>m c. rootKey (fst (u m c)) = rootKey m"
      and n': "fst (u n (netNextNodeIdRef s)) = n'"
      and f: "nid (flds n') = i" "kind (flds n') = kind (flds n)" "net (flds n') = net (flds n)"
  shows "bodyNodeAt fmt (setNetTreeUpdate i u s) i n'"
proof -
  have a: "\<not> netIsExpandingRef s" "flatNet fmt s \<noteq> []" "selectedNetNodeId s = Some i" "i \<noteq> []"
    "findNodeById (netTree s) i = Some n" "kind (flds n) = KEntry"
    "(case net (flds n) of None \<Rightarrow> False
         | Some info \<Rightarrow> role info = RoleBody \<and> which info \<noteq> Some WhichRequest)"
    using v by (simp_all add: bodyNodeAt_def)
  have fl: "flatNet fmt (setNetTreeUpdate i u s) \<noteq> []"
    using setNetTreeUpdate_flat_empty[of u fmt i s, OF k] a(2) by simp
  have fi: "findNodeById (netTree (setNetTreeUpdate i u s)) i = Some n'"
    using find_setNetTreeUpdate[OF a(5), of u] n' f(1) by simp
  show ?thesis using a fl fi f by (simp add: bodyNodeAt_def)
qed

lemma bodyNodeAt_cells:
  "bodyNodeAt fmt (s\<lparr>netNextNodeIdRef := c\<rparr>) i n = bodyNodeAt fmt s i n"
  "bodyNodeAt fmt (s\<lparr>netByIdRef := m\<rparr>) i n = bodyNodeAt fmt s i n"
  by (simp_all add: bodyNodeAt_def)

lemma net_begin_body:
  assumes v: "bodyNodeAt fmt s i n" and r: "bodyRid n = Some rid"
  shows "toggleNetExpandSelected_begin fmt se pj s =
     (let nextExpanded = (expanded (flds n) \<noteq> Some True);
          flip = setNetTreeUpdate i (pureUpd (setExpanded nextExpanded)) s
      in if \<not> nextExpanded then (flip, None)
         else (case Option.bind (netByIdRef s rid) responseBody of
                 Some rb \<Rightarrow> (showBody pj i rb flip, None)
               | None \<Rightarrow> (setNetTreeUpdate i netLoadingUpdater (flip\<lparr>netIsExpandingRef := True\<rparr>),
                           Some (i, rid))))"
proof -
  have a: "\<not> netIsExpandingRef s" "flatNet fmt s \<noteq> []" "selectedNetNodeId s = Some i" "i \<noteq> []"
    "findNodeById (netTree s) i = Some n" "kind (flds n) = KEntry"
    using v by (simp_all add: bodyNodeAt_def)
  obtain info where i: "net (flds n) = Some info" "role info = RoleBody"
    "which info \<noteq> Some WhichRequest" "requestId info = rid"
    using v r by (auto simp: bodyNodeAt_def bodyRid_def split: option.splits)
  show ?thesis
    unfolding toggleNetExpandSelected_begin_def
    using a i by (simp add: Let_def)
qed

lemma pressZNet_3:
  "pressZNet fmt se pj gb 3 (s, 0) =
     (case toggleNetExpandSelected fmt se pj gb s of (s1, j1) \<Rightarrow>
      case toggleNetExpandSelected fmt se pj gb s1 of (s2, j2) \<Rightarrow>
      case toggleNetExpandSelected fmt se pj gb s2 of (s3, j3) \<Rightarrow> (s3, j1 + j2 + j3))"
  by (simp add: numeral_3_eq_3 split: prod.splits)

lemma net_toggle_collapse:
  assumes v: "bodyNodeAt fmt s i n" and r: "bodyRid n = Some rid"
      and e: "expanded (flds n) = Some True"
  shows "toggleNetExpandSelected fmt se pj gb s
           = (setNetTreeUpdate i (pureUpd (setExpanded False)) s, 0)
       \<and> bodyNodeAt fmt (setNetTreeUpdate i (pureUpd (setExpanded False)) s) i (setExpanded False n)"
proof -
  have b: "toggleNetExpandSelected_begin fmt se pj s
             = (setNetTreeUpdate i (pureUpd (setExpanded False)) s, None)"
    unfolding net_begin_body[OF v r] Let_def using e by simp
  have idn: "nid (flds n) = i" using v by (rule bodyNodeAt_id)
  have v': "bodyNodeAt fmt (setNetTreeUpdate i (pureUpd (setExpanded False)) s) i (setExpanded False n)"
    by (rule bodyNodeAt_update[OF v]) (simp_all add: pureUpd_def setExpanded_def idn rootKey_def)
  show ?thesis using b v' by (simp add: toggleNetExpandSelected_def)
qed

lemma net_toggle_cached:
  assumes v: "bodyNodeAt fmt s i n" and r: "bodyRid n = Some rid"
      and e: "expanded (flds n) \<noteq> Some True"
      and rb: "Option.bind (netByIdRef s rid) responseBody = Some body"
  shows "\<exists>s' n'. toggleNetExpandSelected fmt se pj gb s = (s', 0) \<and> bodyNodeAt fmt s' i n'
           \<and> expanded (flds n') = Some True
           \<and> (\<exists>c. children n' = fst (bodyChildren (formatResponseBody pj (fst body) (snd body)) c))
           \<and> Option.bind (netByIdRef s' rid) responseBody = Some body"
proof -
  let ?flip = "setNetTreeUpdate i (pureUpd (setExpanded True)) s"
  have b: "toggleNetExpandSelected_begin fmt se pj s = (showBody pj i body ?flip, None)"
    unfolding net_begin_body[OF v r] Let_def using e rb by simp
  have idn: "nid (flds n) = i" using v by (rule bodyNodeAt_id)
  have v1: "bodyNodeAt fmt ?flip i (setExpanded True n)"
    by (rule bodyNodeAt_update[OF v]) (simp_all add: pureUpd_def setExpanded_def idn rootKey_def)
  obtain cs c where bc: "bodyChildren (formatResponseBody pj (fst body) (snd body)) (netNextNodeIdRef ?flip) = (cs, c)"
    by (cases "bodyChildren (formatResponseBody pj (fst body) (snd body)) (netNextNodeIdRef ?flip)") auto
  let ?u = "pureUpd (\<lambda>m. LogNode (flds m) cs) :: LogNode \<Rightarrow> nat \<Rightarrow> LogNode \<times> nat"
  let ?s' = "setNetTreeUpdate i ?u (?flip\<lparr>netNextNodeIdRef := c\<rparr>)"
  let ?n' = "LogNode (flds (setExpanded True n)) cs"
  have sb: "showBody pj i body ?flip = ?s'" by (simp add: showBody_def bc)
  have v1c: "bodyNodeAt fmt (?flip\<lparr>netNextNodeIdRef := c\<rparr>) i (setExpanded True n)"
    using v1 by (simp add: bodyNodeAt_cells)
  have v': "bodyNodeAt fmt ?s' i ?n'"
    by (rule bodyNodeAt_update[OF v1c]) (simp_all add: pureUpd_def setExpanded_def idn rootKey_def)
  have t: "toggleNetExpandSelected fmt se pj gb s = (?s', 0)"
    using b sb by (simp add: toggleNetExpandSelected_def)
  have e': "expanded (flds ?n') = Some True" by (simp add: setExpanded_def)
  have ch: "\<exists>c. children ?n' = fst (bodyChildren (formatResponseBody pj (fst body) (snd body)) c)"
    by (rule exI[of _ "netNextNodeIdRef ?flip"]) (simp add: bc)
  have rec: "Option.bind (netByIdRef ?s' rid) responseBody = Some body" using rb by simp
  show ?thesis by (intro exI[of _ ?s'] exI[of _ ?n'] conjI t v' e' ch rec)
qed

lemma upsert_body:
  "Option.bind (netByIdRef (upsertNet rid (emptyPatch\<lparr>p_responseBody := Some (Some body)\<rparr>) s) rid) responseBody
     = Some body"
  by (simp add: upsertNet_def mergeRecord_def spreadKey_def Let_def)

lemma upsertNet_cells [simp]:
  "netTree (upsertNet rid p s) = netTree s"
  "netNextNodeIdRef (upsertNet rid p s) = netNextNodeIdRef s"
  "netIsExpandingRef (upsertNet rid p s) = netIsExpandingRef s"
  "selectedNetNodeId (upsertNet rid p s) = selectedNetNodeId s"
  "flatNet fmt (upsertNet rid p s) = flatNet fmt s"
  by (simp_all add: upsertNet_def Let_def)

lemma net_toggle_fetch:
  assumes v: "bodyNodeAt fmt s i n" and r: "bodyRid n = Some rid"
      and e: "expanded (flds n) \<noteq> Some True"
      and rb: "Option.bind (netByIdRef s rid) responseBody = None"
      and g: "gb rid = Fulfilled body"
  shows "\<exists>s' n'. toggleNetExpandSelected fmt se pj gb s = (s', 1) \<and> bodyNodeAt fmt s' i n'
           \<and> bodyRid n' = Some rid \<and> expanded (flds n') = Some True
           \<and> Option.bind (netByIdRef s' rid) responseBody = Some body"
proof -
  let ?flip = "setNetTreeUpdate i (pureUpd (setExpanded True)) s"
  let ?sB = "setNetTreeUpdate i netLoadingUpdater (?flip\<lparr>netIsExpandingRef := True\<rparr>)"
  have b: "toggleNetExpandSelected_begin fmt se pj s = (?sB, Some (i, rid))"
    unfolding net_begin_body[OF v r] Let_def using e rb by simp
  have idn: "nid (flds n) = i" using v by (rule bodyNodeAt_id)
  have v1: "bodyNodeAt fmt ?flip i (setExpanded True n)"
    by (rule bodyNodeAt_update[OF v]) (simp_all add: pureUpd_def setExpanded_def idn rootKey_def)
  define nL where "nL = fst (netLoadingUpdater (setExpanded True n) (netNextNodeIdRef ?flip))"
  have fL: "flds nL = (flds n)\<lparr>expanded := Some True, loading := Some True\<rparr>"
    by (simp add: nL_def netLoadingUpdater_def setExpanded_def)
  let ?sL = "setNetTreeUpdate i netLoadingUpdater ?flip"
  have vL: "bodyNodeAt fmt ?sL i nL"
    by (rule bodyNodeAt_update[OF v1]) (simp_all add: nL_def netLoadingUpdater_def setExpanded_def idn rootKey_def)
  have sBrel: "?sB = ?sL\<lparr>netIsExpandingRef := True\<rparr>"
    by (simp add: setNetTreeUpdate_def split: prod.splits)
  let ?sBF = "?sB\<lparr>netIsExpandingRef := False\<rparr>"
  have vBF: "bodyNodeAt fmt ?sBF i nL"
    using vL unfolding sBrel by (simp add: bodyNodeAt_def)
  let ?s0 = "upsertNet rid (emptyPatch\<lparr>p_responseBody := Some (Some body)\<rparr>) ?sBF"
  obtain cs c where bc: "bodyChildren (formatResponseBody pj (fst body) (snd body)) (netNextNodeIdRef ?sB) = (cs, c)"
    by (cases "bodyChildren (formatResponseBody pj (fst body) (snd body)) (netNextNodeIdRef ?sB)") auto
  let ?u = "pureUpd (\<lambda>m. LogNode ((flds m)\<lparr>loading := Some False\<rparr>) cs) :: LogNode \<Rightarrow> nat \<Rightarrow> LogNode \<times> nat"
  let ?s' = "setNetTreeUpdate i ?u (?s0\<lparr>netNextNodeIdRef := c\<rparr>)"
  let ?n' = "LogNode ((flds nL)\<lparr>loading := Some False\<rparr>) cs"
  have v0: "bodyNodeAt fmt (?s0\<lparr>netNextNodeIdRef := c\<rparr>) i nL"
    using vBF by (simp add: bodyNodeAt_def)
  have v': "bodyNodeAt fmt ?s' i ?n'"
    by (rule bodyNodeAt_update[OF v0]) (simp_all add: pureUpd_def fL idn rootKey_def)
  have st0: "toggleNetExpandSelected_settle pj i rid (Fulfilled body) ?sB
              = (setNetTreeUpdate i ?u
                   ((upsertNet rid (emptyPatch\<lparr>p_responseBody := Some (Some body)\<rparr>) ?sB)
                      \<lparr>netNextNodeIdRef := c\<rparr>))\<lparr>netIsExpandingRef := False\<rparr>"
    using bc by (simp add: toggleNetExpandSelected_settle_def Let_def)
  have comm: "(setNetTreeUpdate i' u' ((upsertNet rid' p' z)\<lparr>netNextNodeIdRef := c'\<rparr>))\<lparr>netIsExpandingRef := False\<rparr>
              = setNetTreeUpdate i' u' ((upsertNet rid' p' (z\<lparr>netIsExpandingRef := False\<rparr>))\<lparr>netNextNodeIdRef := c'\<rparr>)"
    for i' u' rid' p' z c'
    by (simp add: setNetTreeUpdate_def upsertNet_def Let_def split: prod.splits)
  have st: "toggleNetExpandSelected_settle pj i rid (Fulfilled body) ?sB = ?s'"
    unfolding st0 by (rule comm)
  have t: "toggleNetExpandSelected fmt se pj gb s = (?s', 1)"
    using b g st by (simp add: toggleNetExpandSelected_def)
  have br: "bodyRid ?n' = Some rid" using r by (simp add: bodyRid_def fL)
  have e': "expanded (flds ?n') = Some True" by (simp add: fL)
  have rec: "Option.bind (netByIdRef ?s' rid) responseBody = Some body"
    by (simp add: upsert_body)
  show ?thesis by (intro exI[of _ ?s'] exI[of _ ?n'] conjI t v' br e' rec)
qed

lemma net_round_trip_core:
  assumes v: "bodyNodeAt fmt s i n" and r: "bodyRid n = Some rid"
      and e: "expanded (flds n) \<noteq> Some True"
      and rb: "Option.bind (netByIdRef s rid) responseBody = None"
      and g: "gb rid = Fulfilled body"
  shows "\<exists>s' n'. pressZNet fmt se pj gb 3 (s, 0) = (s', 1) \<and> bodyNodeAt fmt s' i n'
           \<and> expanded (flds n') = Some True
           \<and> (\<exists>c. children n' = fst (bodyChildren (formatResponseBody pj (fst body) (snd body)) c))
           \<and> Option.bind (netByIdRef s' rid) responseBody = Some body"
proof -
  from net_toggle_fetch[where gb = gb and se = se and pj = pj, OF v r e rb g]
  obtain s1 n1 where t1: "toggleNetExpandSelected fmt se pj gb s = (s1, 1)"
    and v1: "bodyNodeAt fmt s1 i n1" and r1: "bodyRid n1 = Some rid"
    and e1: "expanded (flds n1) = Some True"
    and b1: "Option.bind (netByIdRef s1 rid) responseBody = Some body"
    by blast
  let ?s2 = "setNetTreeUpdate i (pureUpd (setExpanded False)) s1"
  let ?n2 = "setExpanded False n1"
  from net_toggle_collapse[OF v1 r1 e1, of se pj gb]
  have t2: "toggleNetExpandSelected fmt se pj gb s1 = (?s2, 0)" and v2: "bodyNodeAt fmt ?s2 i ?n2"
    by simp_all
  have r2: "bodyRid ?n2 = Some rid" using r1 by (simp add: bodyRid_def setExpanded_def)
  have e2: "expanded (flds ?n2) \<noteq> Some True" by (simp add: setExpanded_def)
  have b2: "Option.bind (netByIdRef ?s2 rid) responseBody = Some body" using b1 by simp
  from net_toggle_cached[OF v2 r2 e2 b2, of se pj gb]
  obtain s3 n3 where t3: "toggleNetExpandSelected fmt se pj gb ?s2 = (s3, 0)"
    and v3: "bodyNodeAt fmt s3 i n3" and e3: "expanded (flds n3) = Some True"
    and c3: "\<exists>c. children n3 = fst (bodyChildren (formatResponseBody pj (fst body) (snd body)) c)"
    and b3: "Option.bind (netByIdRef s3 rid) responseBody = Some body"
    by blast
  have p: "pressZNet fmt se pj gb 3 (s, 0) = (s3, 1)" unfolding pressZNet_3 by (simp add: t1 t2 t3)
  show ?thesis by (intro exI[of _ s3] exI[of _ n3] conjI p v3 e3 c3 b3)
qed

lemma net_wit_pre: "bodyNodeAt descFmt oneRequest ''net:r1:body''
   (LogNode ((mkFields ''net:r1:body'' KEntry)\<lparr>label := Some ''Response Body'', expanded := Some False,
        net := Some \<lparr>requestId = ''r1'', role = RoleBody, which = None\<rparr>\<rparr>)
      [metaNode ''net_n3'' ''(press z to load)''])"
  by code_simp

lemma valueOid_flds:
  "kind (flds a) = kind (flds b) \<Longrightarrow> object (flds a) = object (flds b) \<Longrightarrow>
   pvalue (flds a) = pvalue (flds b) \<Longrightarrow> valueOid a = valueOid b"
  by (simp add: valueOid_def)

lemma round_trip_empty:
  assumes v: "valueNodeAt fmt s i n"
      and c: "expanded (flds n) \<noteq> Some True" "children n = []"
      and oid: "valueOid n = Some oid"
      and g: "gp oid = Fulfilled []"
  shows "\<exists>s' n'. pressZ fmt gp 3 (s, 0) = (s', 2) \<and> valueNodeAt fmt s' i n'
           \<and> expanded (flds n') = Some True \<and> children n' = []"
proof -
  from toggle_fetch[OF v c(1) disjI1[OF c(2)] oid, of gp]
  obtain s1 n1 where t1: "toggleExpandSelected fmt gp s = (s1, 1)"
    and v1: "valueNodeAt fmt s1 i n1"
    and f1: "flds n1 = (flds n)\<lparr>expanded := Some True, loading := Some False\<rparr>"
    and ch1: "children n1 = []"
    using g by auto
  have e1: "expanded (flds n1) = Some True" by (simp add: f1)
  let ?s2 = "setLogTreeUpdate i (pureUpd (setExpanded False)) s1"
  let ?n2 = "setExpanded False n1"
  from toggle_flip[OF v1 disjI1[OF e1], of gp]
  have t2: "toggleExpandSelected fmt gp s1 = (?s2, 0)" and v2: "valueNodeAt fmt ?s2 i ?n2"
    by (simp_all add: e1)
  have e2: "expanded (flds ?n2) \<noteq> Some True" by (simp add: setExpanded_def)
  have c2: "children ?n2 = []" using ch1 by (simp add: setExpanded_def)
  have o2: "valueOid ?n2 = Some oid"
    using oid valueOid_flds[of ?n2 n] by (simp add: setExpanded_def f1)
  from toggle_fetch[OF v2 e2 disjI1[OF c2] o2, of gp]
  obtain s3 n3 where t3: "toggleExpandSelected fmt gp ?s2 = (s3, 1)"
    and v3: "valueNodeAt fmt s3 i n3"
    and f3: "flds n3 = (flds ?n2)\<lparr>expanded := Some True, loading := Some False\<rparr>"
    and ch3: "children n3 = []"
    using g by auto
  have p: "pressZ fmt gp 3 (s, 0) = (s3, 2)" unfolding pressZ_3 by (simp add: t1 t2 t3)
  have e3: "expanded (flds n3) = Some True" by (simp add: f3)
  show ?thesis by (intro exI[of _ s3] exI[of _ n3] conjI p v3 e3 ch3)
qed

lemma net_toggle_fetch_rejected:
  assumes v: "bodyNodeAt fmt s i n" and r: "bodyRid n = Some rid"
      and e: "expanded (flds n) \<noteq> Some True"
      and rb: "Option.bind (netByIdRef s rid) responseBody = None"
      and g: "gb rid = Rejected err"
  shows "\<exists>s' n'. toggleNetExpandSelected fmt se pj gb s = (s', 1) \<and> bodyNodeAt fmt s' i n'
           \<and> bodyRid n' = Some rid \<and> expanded (flds n') = Some True
           \<and> (\<exists>mid. children n' = [metaNode mid (''[body] ! '' @ err)])
           \<and> Option.bind (netByIdRef s' rid) responseBody = None"
proof -
  let ?flip = "setNetTreeUpdate i (pureUpd (setExpanded True)) s"
  let ?sB = "setNetTreeUpdate i netLoadingUpdater (?flip\<lparr>netIsExpandingRef := True\<rparr>)"
  have b: "toggleNetExpandSelected_begin fmt se pj s = (?sB, Some (i, rid))"
    unfolding net_begin_body[OF v r] Let_def using e rb by simp
  have idn: "nid (flds n) = i" using v by (rule bodyNodeAt_id)
  have v1: "bodyNodeAt fmt ?flip i (setExpanded True n)"
    by (rule bodyNodeAt_update[OF v]) (simp_all add: pureUpd_def setExpanded_def idn rootKey_def)
  define nL where "nL = fst (netLoadingUpdater (setExpanded True n) (netNextNodeIdRef ?flip))"
  have fL: "flds nL = (flds n)\<lparr>expanded := Some True, loading := Some True\<rparr>"
    by (simp add: nL_def netLoadingUpdater_def setExpanded_def)
  let ?sL = "setNetTreeUpdate i netLoadingUpdater ?flip"
  have vL: "bodyNodeAt fmt ?sL i nL"
    by (rule bodyNodeAt_update[OF v1]) (simp_all add: nL_def netLoadingUpdater_def setExpanded_def idn rootKey_def)
  have sBrel: "?sB = ?sL\<lparr>netIsExpandingRef := True\<rparr>"
    by (simp add: setNetTreeUpdate_def split: prod.splits)
  let ?sBF = "?sB\<lparr>netIsExpandingRef := False\<rparr>"
  have vBF: "bodyNodeAt fmt ?sBF i nL"
    using vL unfolding sBrel by (simp add: bodyNodeAt_def)
  let ?u = "\<lambda>m c. (LogNode ((flds m)\<lparr>loading := Some False\<rparr>)
                      [metaNode (netIdOfCounter (Suc c)) (''[body] ! '' @ err)], Suc c)"
  let ?c = "netNextNodeIdRef ?sBF"
  let ?s' = "setNetTreeUpdate i ?u ?sBF"
  let ?n' = "LogNode ((flds nL)\<lparr>loading := Some False\<rparr>)
               [metaNode (netIdOfCounter (Suc ?c)) (''[body] ! '' @ err)]"
  have v': "bodyNodeAt fmt ?s' i ?n'"
    by (rule bodyNodeAt_update[OF vBF]) (simp_all add: fL idn rootKey_def)
  have st: "toggleNetExpandSelected_settle pj i rid (Rejected err) ?sB = ?s'"
    by (simp add: toggleNetExpandSelected_settle_def setNetTreeUpdate_def split: prod.splits)
  have t: "toggleNetExpandSelected fmt se pj gb s = (?s', 1)"
    using b g st by (simp add: toggleNetExpandSelected_def)
  have br: "bodyRid ?n' = Some rid" using r by (simp add: bodyRid_def fL)
  have e': "expanded (flds ?n') = Some True" by (simp add: fL)
  have ch: "\<exists>mid. children ?n' = [metaNode mid (''[body] ! '' @ err)]"
    by (rule exI[of _ "netIdOfCounter (Suc ?c)"]) simp
  have rec: "Option.bind (netByIdRef ?s' rid) responseBody = None" using rb by simp
  show ?thesis by (intro exI[of _ ?s'] exI[of _ ?n'] conjI t v' br e' ch rec)
qed

lemma net_round_trip_rejected:
  assumes v: "bodyNodeAt fmt s i n" and r: "bodyRid n = Some rid"
      and e: "expanded (flds n) \<noteq> Some True"
      and rb: "Option.bind (netByIdRef s rid) responseBody = None"
      and g: "gb rid = Rejected err"
  shows "\<exists>s' n'. pressZNet fmt se pj gb 3 (s, 0) = (s', 2) \<and> bodyNodeAt fmt s' i n'
           \<and> expanded (flds n') = Some True
           \<and> (\<exists>mid. children n' = [metaNode mid (''[body] ! '' @ err)])"
proof -
  from net_toggle_fetch_rejected[where gb = gb and se = se and pj = pj, OF v r e rb g]
  obtain s1 n1 where t1: "toggleNetExpandSelected fmt se pj gb s = (s1, 1)"
    and v1: "bodyNodeAt fmt s1 i n1" and r1: "bodyRid n1 = Some rid"
    and e1: "expanded (flds n1) = Some True"
    and b1: "Option.bind (netByIdRef s1 rid) responseBody = None"
    by blast
  let ?s2 = "setNetTreeUpdate i (pureUpd (setExpanded False)) s1"
  let ?n2 = "setExpanded False n1"
  from net_toggle_collapse[OF v1 r1 e1, of se pj gb]
  have t2: "toggleNetExpandSelected fmt se pj gb s1 = (?s2, 0)" and v2: "bodyNodeAt fmt ?s2 i ?n2"
    by simp_all
  have r2: "bodyRid ?n2 = Some rid" using r1 by (simp add: bodyRid_def setExpanded_def)
  have e2: "expanded (flds ?n2) \<noteq> Some True" by (simp add: setExpanded_def)
  have b2: "Option.bind (netByIdRef ?s2 rid) responseBody = None" using b1 by simp
  from net_toggle_fetch_rejected[where gb = gb and se = se and pj = pj, OF v2 r2 e2 b2 g]
  obtain s3 n3 where t3: "toggleNetExpandSelected fmt se pj gb ?s2 = (s3, 1)"
    and v3: "bodyNodeAt fmt s3 i n3" and e3: "expanded (flds n3) = Some True"
    and c3: "\<exists>mid. children n3 = [metaNode mid (''[body] ! '' @ err)]"
    by blast
  have p: "pressZNet fmt se pj gb 3 (s, 0) = (s3, 2)" unfolding pressZNet_3 by (simp add: t1 t2 t3)
  show ?thesis by (intro exI[of _ s3] exI[of _ n3] conjI p v3 e3 c3)
qed

text \<open>
  C2.  An argument node of the log store whose object has no properties is fetched on the
  first expansion and fetched again on the expansion after a collapse: the fetch resolves to
  an empty list, and an empty list of children is what a node that was never fetched has.
  A response-body node whose fetch was rejected is fetched again as well, the record holding no
  body.  In both examples the first press issues one fetch and the three presses issue two.
\<close>

theorem round_trip_refetch:
  "snd (toggleExpandSelected descFmt noProperties argOfPair) = 1
   \<and> snd (pressZ descFmt noProperties 3 (argOfPair, 0)) = 2
   \<and> snd (toggleNetExpandSelected descFmt keepOrder plainJson (\<lambda>rid. Rejected ''gone'') oneRequest) = 1
   \<and> snd (pressZNet descFmt keepOrder plainJson (\<lambda>rid. Rejected ''gone'') 3 (oneRequest, 0)) = 2"
  by code_simp

text \<open>
  C2, what holds.  Log store: for a selected argument or property node that is collapsed and
  has no children, expanding, collapsing and expanding again calls \<open>getProperties\<close> exactly once
  when the fetch is fulfilled with at least one child or is rejected, and the node ends
  expanded with the fetched children (the one \<open>[props] ! err\<close> node after a rejection); it calls
  it exactly twice when the fetch is fulfilled with no children.  Network store: for a selected
  response-body node that is collapsed, with no body on the record, the three presses call
  \<open>getResponseBody\<close> exactly once when the fetch is fulfilled: the body is then on the record,
  and the children shown after the third press are built again from it; they call it exactly
  twice when the fetch is rejected.
\<close>

theorem round_trip_fetch_once:
  fixes gp :: "string \<Rightarrow> LogNode list fetched" and gb :: "string \<Rightarrow> (string \<times> bool) fetched"
  shows
  "(valueNodeAt fmt s i n \<and> expanded (flds n) \<noteq> Some True \<and> children n = []
      \<and> valueOid n = Some oid \<and> gp oid \<noteq> Fulfilled [] \<longrightarrow>
      (\<exists>s' n'. pressZ fmt gp 3 (s, 0) = (s', 1) \<and> valueNodeAt fmt s' i n'
          \<and> expanded (flds n') = Some True
          \<and> (case gp oid of
                Fulfilled cs \<Rightarrow> children n' = cs
              | Rejected e \<Rightarrow> (\<exists>mid. children n' = [metaNode mid (''[props] ! '' @ e)]))))
   \<and> (valueNodeAt fmt s i n \<and> expanded (flds n) \<noteq> Some True \<and> children n = []
      \<and> valueOid n = Some oid \<and> gp oid = Fulfilled [] \<longrightarrow>
      (\<exists>s' n'. pressZ fmt gp 3 (s, 0) = (s', 2) \<and> valueNodeAt fmt s' i n'
          \<and> expanded (flds n') = Some True \<and> children n' = []))
   \<and> (bodyNodeAt fmt t j m \<and> bodyRid m = Some rid \<and> expanded (flds m) \<noteq> Some True
      \<and> Option.bind (netByIdRef t rid) responseBody = None \<and> gb rid = Fulfilled body \<longrightarrow>
      (\<exists>t' m'. pressZNet fmt se pj gb 3 (t, 0) = (t', 1) \<and> bodyNodeAt fmt t' j m'
          \<and> expanded (flds m') = Some True
          \<and> (\<exists>c. children m' = fst (bodyChildren (formatResponseBody pj (fst body) (snd body)) c))
          \<and> Option.bind (netByIdRef t' rid) responseBody = Some body))
   \<and> (bodyNodeAt fmt t j m \<and> bodyRid m = Some rid \<and> expanded (flds m) \<noteq> Some True
      \<and> Option.bind (netByIdRef t rid) responseBody = None \<and> gb rid = Rejected err \<longrightarrow>
      (\<exists>t' m'. pressZNet fmt se pj gb 3 (t, 0) = (t', 2) \<and> bodyNodeAt fmt t' j m'
          \<and> expanded (flds m') = Some True
          \<and> (\<exists>mid. children m' = [metaNode mid (''[body] ! '' @ err)])))"
proof (intro conjI impI)
  assume h: "valueNodeAt fmt s i n \<and> expanded (flds n) \<noteq> Some True \<and> children n = []
      \<and> valueOid n = Some oid \<and> gp oid \<noteq> Fulfilled []"
  show "\<exists>s' n'. pressZ fmt gp 3 (s, 0) = (s', 1) \<and> valueNodeAt fmt s' i n'
          \<and> expanded (flds n') = Some True
          \<and> (case gp oid of
                Fulfilled cs \<Rightarrow> children n' = cs
              | Rejected e \<Rightarrow> (\<exists>mid. children n' = [metaNode mid (''[props] ! '' @ e)]))"
    by (rule round_trip_core[where gp = gp, OF h[THEN conjunct1] h[THEN conjunct2, THEN conjunct1]
          h[THEN conjunct2, THEN conjunct2, THEN conjunct1]
          h[THEN conjunct2, THEN conjunct2, THEN conjunct2, THEN conjunct1]
          h[THEN conjunct2, THEN conjunct2, THEN conjunct2, THEN conjunct2]])
next
  assume h: "valueNodeAt fmt s i n \<and> expanded (flds n) \<noteq> Some True \<and> children n = []
      \<and> valueOid n = Some oid \<and> gp oid = Fulfilled []"
  show "\<exists>s' n'. pressZ fmt gp 3 (s, 0) = (s', 2) \<and> valueNodeAt fmt s' i n'
          \<and> expanded (flds n') = Some True \<and> children n' = []"
    by (rule round_trip_empty[where gp = gp, OF h[THEN conjunct1] h[THEN conjunct2, THEN conjunct1]
          h[THEN conjunct2, THEN conjunct2, THEN conjunct1]
          h[THEN conjunct2, THEN conjunct2, THEN conjunct2, THEN conjunct1]
          h[THEN conjunct2, THEN conjunct2, THEN conjunct2, THEN conjunct2]])
next
  assume h: "bodyNodeAt fmt t j m \<and> bodyRid m = Some rid \<and> expanded (flds m) \<noteq> Some True
      \<and> Option.bind (netByIdRef t rid) responseBody = None \<and> gb rid = Fulfilled body"
  show "\<exists>t' m'. pressZNet fmt se pj gb 3 (t, 0) = (t', 1) \<and> bodyNodeAt fmt t' j m'
          \<and> expanded (flds m') = Some True
          \<and> (\<exists>c. children m' = fst (bodyChildren (formatResponseBody pj (fst body) (snd body)) c))
          \<and> Option.bind (netByIdRef t' rid) responseBody = Some body"
    by (rule net_round_trip_core[where gb = gb, OF h[THEN conjunct1] h[THEN conjunct2, THEN conjunct1]
          h[THEN conjunct2, THEN conjunct2, THEN conjunct1]
          h[THEN conjunct2, THEN conjunct2, THEN conjunct2, THEN conjunct1]
          h[THEN conjunct2, THEN conjunct2, THEN conjunct2, THEN conjunct2]])
next
  assume h: "bodyNodeAt fmt t j m \<and> bodyRid m = Some rid \<and> expanded (flds m) \<noteq> Some True
      \<and> Option.bind (netByIdRef t rid) responseBody = None \<and> gb rid = Rejected err"
  show "\<exists>t' m'. pressZNet fmt se pj gb 3 (t, 0) = (t', 2) \<and> bodyNodeAt fmt t' j m'
          \<and> expanded (flds m') = Some True
          \<and> (\<exists>mid. children m' = [metaNode mid (''[body] ! '' @ err)])"
    by (rule net_round_trip_rejected[where gb = gb, OF h[THEN conjunct1] h[THEN conjunct2, THEN conjunct1]
          h[THEN conjunct2, THEN conjunct2, THEN conjunct1]
          h[THEN conjunct2, THEN conjunct2, THEN conjunct2, THEN conjunct1]
          h[THEN conjunct2, THEN conjunct2, THEN conjunct2, THEN conjunct2]])
qed

lemma fetched_neq: "Fulfilled [textNode ''p1'' ''x''] \<noteq> Fulfilled []"
  by simp

theorem round_trip_fetch_once_witness:
  "snd (pressZ descFmt (\<lambda>oid. Fulfilled [textNode ''p1'' ''x'']) 3 (argOfPair, 0)) = 1
   \<and> snd (pressZNet descFmt keepOrder plainJson (\<lambda>rid. Fulfilled (''hello'', False)) 3 (oneRequest, 0)) = 1"
proof -
  let ?n = "LogNode ((mkFields ''n1:arg:0'' KArg)\<lparr>object := Some (remoteObj ''o1''), expanded := Some False\<rparr>) []"
  let ?m = "LogNode ((mkFields ''net:r1:body'' KEntry)\<lparr>label := Some ''Response Body'', expanded := Some False,
        net := Some \<lparr>requestId = ''r1'', role = RoleBody, which = None\<rparr>\<rparr>)
      [metaNode ''net_n3'' ''(press z to load)'']"
  let ?gp = "\<lambda>oid :: string. Fulfilled [textNode ''p1'' ''x'']"
  let ?gb = "\<lambda>rid :: string. Fulfilled (''hello'', False) :: (string \<times> bool) fetched"
  note inst = round_trip_fetch_once[where fmt = descFmt and s = argOfPair and i = "''n1:arg:0''"
      and n = ?n and oid = "''o1''" and gp = ?gp and t = oneRequest and j = "''net:r1:body''"
      and m = ?m and rid = "''r1''" and gb = ?gb and body = "(''hello'', False)" and se = keepOrder
      and pj = plainJson and err = "''gone''"]
  have h1: "valueNodeAt descFmt argOfPair ''n1:arg:0'' ?n \<and> expanded (flds ?n) \<noteq> Some True
      \<and> children ?n = [] \<and> valueOid ?n = Some ''o1'' \<and> ?gp ''o1'' \<noteq> Fulfilled []"
    using wit_pre by (simp add: valueOid_def mkFields_def remoteObj_def)
  have rb: "Option.bind (netByIdRef oneRequest ''r1'') responseBody = None"
    by code_simp
  have h2: "bodyNodeAt descFmt oneRequest ''net:r1:body'' ?m \<and> bodyRid ?m = Some ''r1''
      \<and> expanded (flds ?m) \<noteq> Some True
      \<and> Option.bind (netByIdRef oneRequest ''r1'') responseBody = None
      \<and> ?gb ''r1'' = Fulfilled (''hello'', False)"
    using net_wit_pre rb by (simp add: bodyRid_def mkFields_def)
  from inst[THEN conjunct1, THEN mp, OF h1]
  have a: "snd (pressZ descFmt ?gp 3 (argOfPair, 0)) = 1" by auto
  from inst[THEN conjunct2, THEN conjunct2, THEN conjunct1, THEN mp, OF h2]
  have b: "snd (pressZNet descFmt keepOrder plainJson ?gb 3 (oneRequest, 0)) = 1" by auto
  from a b show ?thesis by (rule conjI)
qed



end
